theory Spec2Isabelle
  imports Complex_Main "HOL-Library.AList" "HOL-Library.Multiset"
begin

section \<open>Data Processor: index building, filtering and statistics\<close>

text \<open>
  The embedding follows \<^verbatim>\<open>src/js/data-processor.js\<close> and \<^verbatim>\<open>src/js/app.js\<close>.
  Conventions of the model:
  \<^item> a JavaScript number that holds a fitness score is a \<^typ>\<open>real\<close>: rounding of IEEE doubles is
    not modelled; the two places where the code can hold an infinity (\<^verbatim>\<open>minSlope\<close>,
    \<^verbatim>\<open>Math.log2(0)\<close>) use the type \<open>number\<close> below;
  \<^item> a JavaScript string is a \<^typ>\<open>string\<close> of ASCII characters;
  \<^item> a plain object used as a dictionary is the association list of its own properties in
    insertion order. A read whose key comes from outside (a filter value) goes through
    \<open>object_get\<close> below, which also finds the properties that every plain object inherits from
    \<^verbatim>\<open>Object.prototype\<close>; a read whose key is a position, one character or \<^verbatim>\<open>undefined\<close> is
    \<^const>\<open>map_of\<close>, since none of these is an inherited name;
  \<^item> a \<^verbatim>\<open>Set\<close> of row identifiers is the list of its elements in insertion order;
  \<^item> \<^verbatim>\<open>null\<close> and \<^verbatim>\<open>undefined\<close> are \<^const>\<open>None\<close>; an exception thrown by a function that
    changes no state is \<^const>\<open>Inl\<close>; an operation of the coordinator ends in an \<open>outcome\<close>
    that holds the state it leaves behind, whether it returns or throws;
    \<open>NonASCII\<close> is not a JavaScript exception: it marks a percent-escape of a byte outside
    ASCII, which the model of strings does not cover.
\<close>

datatype js_error = TypeError | URIError | NonASCII

datatype number = Num real | PosInf | NegInf

definition VARIABLE_POSITIONS :: "nat list" where
  "VARIABLE_POSITIONS = [9, 12, 13, 16]"

definition AA_ORDER :: "string list" where
  "AA_ORDER =
     [''G'', ''A'', ''V'', ''L'', ''I'', ''M'',
      ''F'', ''W'', ''Y'',
      ''S'', ''T'', ''N'', ''Q'', ''C'',
      ''K'', ''R'', ''H'',
      ''D'', ''E'',
      ''P'',
      ''*'']"

text \<open>
  A raw row as the loader hands it over. \<open>Protein_Seq\<close> is the sequence field, \<^const>\<open>None\<close>
  when it is missing. \<open>Slope\<close> is the outcome of \<^verbatim>\<open>row['Slope'] == null\<close> followed by
  \<^verbatim>\<open>parseFloat\<close>: \<^const>\<open>None\<close> when the field is missing or parses to NaN. \<open>Rank\<close> is the
  outcome of \<^verbatim>\<open>parseInt(row['Rank'])\<close>, \<^const>\<open>None\<close> for NaN.
\<close>

record raw_row =
  Protein_Seq :: "string option"
  Slope :: "real option"
  Rank :: "int option"

record sequence_row =
  p9 :: string
  p12 :: string
  p13 :: string
  p16 :: string
  slope :: real
  rank :: int
  seq :: string
  hasStop :: bool

type_synonym buckets = "(string \<times> nat list) list"

record data_store =
  sequences :: "sequence_row list"
  indexByPosition :: "(nat \<times> buckets) list"
  aasAtPosition :: "(nat \<times> string list) list"
  totalCount :: nat
  maxSlope :: real
  minSlope :: number
  percentile1 :: real
  percentile10 :: real

text \<open>\<^verbatim>\<open>s[i]\<close> on a string: the one-character string at \<open>i\<close>, or undefined.\<close>

definition char_at :: "string \<Rightarrow> nat \<Rightarrow> string option" where
  "char_at s i = (if i < length s then Some [s ! i] else None)"

text \<open>\<^verbatim>\<open>seq[i] || ''\<close>: the value stored in the row.\<close>

definition stored_value :: "string \<Rightarrow> nat \<Rightarrow> string" where
  "stored_value s i = (case char_at s i of None \<Rightarrow> [] | Some c \<Rightarrow> c)"

text \<open>
  \<^verbatim>\<open>indexByPosition[pos][seq[pos]]\<close>: the property key of the bucket. An undefined value used
  as a property key is the string \<^verbatim>\<open>undefined\<close>.
\<close>

definition index_key :: "string \<Rightarrow> nat \<Rightarrow> string" where
  "index_key s pos = (case char_at s pos of None \<Rightarrow> ''undefined'' | Some c \<Rightarrow> c)"

text \<open>
  The names of the properties of \<^verbatim>\<open>Object.prototype\<close> (ECMAScript 20.1.3 and B.2.2), which
  every object written \<^verbatim>\<open>{}\<close> inherits. Each of them reads as a function, or for
  \<^verbatim>\<open>__proto__\<close> as the prototype object: a truthy value that is not iterable.
\<close>

definition Object_prototype_names :: "string list" where
  "Object_prototype_names =
     [''constructor'', ''__defineGetter__'', ''__defineSetter__'', ''hasOwnProperty'',
      ''__lookupGetter__'', ''__lookupSetter__'', ''isPrototypeOf'', ''propertyIsEnumerable'',
      ''toString'', ''valueOf'', ''__proto__'', ''toLocaleString'']"

datatype 'a property = Own 'a | Inherited | Absent

text \<open>\<^verbatim>\<open>b[k]\<close> on a plain object \<open>b\<close>: an own property first, then an inherited one.\<close>

definition object_get :: "(string \<times> 'a) list \<Rightarrow> string \<Rightarrow> 'a property" where
  "object_get b k =
     (case map_of b k of
        Some v \<Rightarrow> Own v
      | None \<Rightarrow> if k \<in> set Object_prototype_names then Inherited else Absent)"

text \<open>
  \<^verbatim>\<open>if (!b[aa]) b[aa] = []; b[aa].push(idx)\<close>, where \<open>aa\<close> is an index key: one character or
  \<^verbatim>\<open>undefined\<close>.
\<close>

definition push_index :: "string \<Rightarrow> nat \<Rightarrow> buckets \<Rightarrow> buckets" where
  "push_index aa idx b =
     AList.update aa ((case map_of b aa of None \<Rightarrow> [] | Some ids \<Rightarrow> ids) @ [idx]) b"

text \<open>The inner loop of \<^verbatim>\<open>init\<close> over the variable positions (lines 96-102).\<close>

definition index_row :: "string \<Rightarrow> nat \<Rightarrow> (nat \<times> buckets) list \<Rightarrow> (nat \<times> buckets) list" where
  "index_row s idx ix =
     fold (\<lambda>pos ix'. AList.map_entry pos (push_index (index_key s pos) idx) ix')
       VARIABLE_POSITIONS ix"

definition lt_number :: "real \<Rightarrow> number \<Rightarrow> bool" where
  "lt_number x m = (case m of Num y \<Rightarrow> x < y | PosInf \<Rightarrow> True | NegInf \<Rightarrow> False)"

text \<open>One iteration of the parsing loop of \<^verbatim>\<open>init\<close> (lines 69-103), for the raw row at \<open>i\<close>.\<close>

definition init_row :: "nat \<Rightarrow> raw_row \<Rightarrow> data_store \<Rightarrow> data_store" where
  "init_row i row d =
     (case Protein_Seq row of
        None \<Rightarrow> d
      | Some s \<Rightarrow>
         if s = [] then d
         else (case Slope row of
            None \<Rightarrow> d
          | Some sl \<Rightarrow>
              let idx = length (sequences d);
                  v9 = stored_value s 9; v12 = stored_value s 12;
                  v13 = stored_value s 13; v16 = stored_value s 16;
                  r = \<lparr>p9 = v9, p12 = v12, p13 = v13, p16 = v16, slope = sl,
                       rank = (case Rank row of
                                 None \<Rightarrow> int (i + 1)
                               | Some k \<Rightarrow> if k = 0 then int (i + 1) else k),
                       seq = s,
                       hasStop = (v9 = ''*'' \<or> v12 = ''*'' \<or> v13 = ''*'' \<or> v16 = ''*'')\<rparr>
              in d\<lparr>sequences := sequences d @ [r],
                   maxSlope := (if sl > maxSlope d then sl else maxSlope d),
                   minSlope := (if lt_number sl (minSlope d) then Num sl else minSlope d),
                   indexByPosition := index_row s idx (indexByPosition d)\<rparr>))"

fun init_loop :: "nat \<Rightarrow> raw_row list \<Rightarrow> data_store \<Rightarrow> data_store" where
  "init_loop i [] d = d"
| "init_loop i (row # rows) d = init_loop (Suc i) rows (init_row i row d)"

text \<open>
  The module's variables when \<^verbatim>\<open>init\<close> starts for the first time: \<^verbatim>\<open>totalCount = 0\<close>,
  \<^verbatim>\<open>maxSlope = 0\<close>, \<^verbatim>\<open>minSlope = Infinity\<close> and the two percentiles \<open>0\<close> (lines 53-57:
  \<^verbatim>\<open>init\<close> does not reset them), and the three collections as lines 60-66 reset them.
\<close>

definition fresh_store :: data_store where
  "fresh_store =
     \<lparr>sequences = [], indexByPosition = map (\<lambda>pos. (pos, [])) VARIABLE_POSITIONS,
      aasAtPosition = [], totalCount = 0, maxSlope = 0, minSlope = PosInf,
      percentile1 = 0, percentile10 = 0\<rparr>"

text \<open>\<^verbatim>\<open>AA_ORDER.filter(aa => Object.keys(indexByPosition[pos]).includes(aa))\<close>\<close>

definition present_aas :: "buckets \<Rightarrow> string list" where
  "present_aas b = filter (\<lambda>aa. aa \<in> set (map fst b)) AA_ORDER"

text \<open>
  \<^verbatim>\<open>sortedSlopes[Math.floor(totalCount * p)] || 0\<close> (lines 115-116), with the index given as the
  integer quotient that \<^verbatim>\<open>Math.floor\<close> of the product stands for (\<open>n div 100\<close> for \<open>0.01\<close>,
  \<open>n div 10\<close> for \<open>0.10\<close>; rounding of the product is not modelled). An index out of range
  reads undefined, which \<^verbatim>\<open>|| 0\<close> turns into \<open>0\<close>.
\<close>

definition percentile_at :: "real list \<Rightarrow> nat \<Rightarrow> real" where
  "percentile_at sortedSlopes k = (if k < length sortedSlopes then sortedSlopes ! k else 0)"

text \<open>
  \<^verbatim>\<open>init\<close> (lines 59-117). \<^verbatim>\<open>sort((a, b) => b - a)\<close> sorts the fitness values descending.
\<close>

definition init :: "raw_row list \<Rightarrow> data_store" where
  "init rawData =
     (let d = init_loop 0 rawData fresh_store;
          d1 = d\<lparr>totalCount := length (sequences d)\<rparr>;
          d2 = d1\<lparr>aasAtPosition :=
                     map (\<lambda>pos. (pos, present_aas (case map_of (indexByPosition d1) pos of
                                                      None \<Rightarrow> [] | Some b \<Rightarrow> b)))
                       VARIABLE_POSITIONS\<rparr>;
          sortedSlopes = rev (sort (map slope (sequences d2)))
      in d2\<lparr>percentile1 := percentile_at sortedSlopes (totalCount d2 div 100),
             percentile10 := percentile_at sortedSlopes (totalCount d2 div 10)\<rparr>)"

subsection \<open>Filter engine\<close>

text \<open>\<^verbatim>\<open>Set.prototype.add\<close> and \<^verbatim>\<open>new Set(iterable)\<close>, keeping insertion order.\<close>

definition Set_add :: "nat list \<Rightarrow> nat \<Rightarrow> nat list" where
  "Set_add s x = (if x \<in> set s then s else s @ [x])"

definition new_Set :: "nat list \<Rightarrow> nat list" where
  "new_Set xs = foldl Set_add [] xs"

text \<open>The intersection loop of lines 129-133.\<close>

definition intersect :: "nat list \<Rightarrow> nat list \<Rightarrow> nat list" where
  "intersect result matching =
     foldl (\<lambda>newResult idx. if idx \<in> set result then Set_add newResult idx else newResult)
       [] matching"

type_synonym filter_map = "nat \<Rightarrow> string option"

fun filter_loop ::
  "(nat \<times> buckets) list \<Rightarrow> filter_map \<Rightarrow> nat list \<Rightarrow> nat list option \<Rightarrow> js_error + nat list option"
where
  "filter_loop ix f [] result = Inr result"
| "filter_loop ix f (pos # ps) result =
     (case f pos of
        None \<Rightarrow> filter_loop ix f ps result
      | Some aa \<Rightarrow>
         (case map_of ix pos of
            None \<Rightarrow> Inl TypeError
          | Some b \<Rightarrow>
             (case object_get b aa of
                Absent \<Rightarrow> Inr (Some [])
              | Inherited \<Rightarrow> Inl TypeError
              | Own matching \<Rightarrow>
                 filter_loop ix f ps
                   (Some (case result of
                            None \<Rightarrow> new_Set matching
                          | Some r \<Rightarrow> intersect r matching)))))"

text \<open>
  \<^verbatim>\<open>getFilteredIndices\<close> (lines 119-137); \<^const>\<open>None\<close> is the \<^verbatim>\<open>null\<close> that means "all". The
  filter value \<open>aa\<close> is any string, so \<^verbatim>\<open>indexByPosition[pos][aa]\<close> can be an inherited property:
  it passes \<^verbatim>\<open>if (!matching)\<close>, and \<^verbatim>\<open>new Set(matching)\<close> as well as the \<^verbatim>\<open>for ... of\<close> loop throw
  a TypeError on it.
\<close>

definition getFilteredIndices :: "data_store \<Rightarrow> filter_map \<Rightarrow> js_error + nat list option" where
  "getFilteredIndices d f = filter_loop (indexByPosition d) f VARIABLE_POSITIONS None"

subsection \<open>Top and bottom extraction\<close>

text \<open>\<^verbatim>\<open>sequences[i]\<close>: undefined when \<open>i\<close> is out of range.\<close>

definition row_at :: "data_store \<Rightarrow> nat \<Rightarrow> sequence_row option" where
  "row_at d i = (if i < length (sequences d) then Some (sequences d ! i) else None)"

text \<open>
  \<^verbatim>\<open>data.sort((a, b) => b.slope - a.slope)\<close>: \<^verbatim>\<open>Array.prototype.sort\<close> is stable and moves
  undefined elements to the end without calling the comparator.
\<close>

definition sort_slope_desc :: "sequence_row option list \<Rightarrow> sequence_row option list" where
  "sort_slope_desc xs =
     map Some (sort_key (\<lambda>r. - slope r) (List.map_filter id xs))
       @ filter (\<lambda>x. x = None) xs"

text \<open>\<^verbatim>\<open>data.slice(-n)\<close>: \<^verbatim>\<open>-0\<close> is \<open>0\<close>, so \<open>n = 0\<close> copies the whole array.\<close>

definition slice_neg :: "nat \<Rightarrow> 'a list \<Rightarrow> 'a list" where
  "slice_neg n xs = (if n = 0 then xs else drop (length xs - n) xs)"

record top_bottom =
  top_rows :: "sequence_row option list"
  bottom_rows :: "sequence_row option list"

text \<open>\<^verbatim>\<open>getTopBottom\<close> (lines 291-304).\<close>

definition getTopBottom :: "data_store \<Rightarrow> nat \<Rightarrow> nat list option \<Rightarrow> top_bottom" where
  "getTopBottom d n filteredIndices =
     (let data = (case filteredIndices of
                    Some s \<Rightarrow> map (row_at d) s
                  | None \<Rightarrow> map Some (sequences d));
          sorted = sort_slope_desc data
      in \<lparr>top_rows = take n sorted, bottom_rows = rev (slice_neg n sorted)\<rparr>)"

text \<open>\<^verbatim>\<open>getAllSlopes\<close> (lines 306-311); reading \<^verbatim>\<open>.slope\<close> of an undefined row throws.\<close>

definition getAllSlopes :: "data_store \<Rightarrow> nat list option \<Rightarrow> js_error + real list" where
  "getAllSlopes d filteredIndices =
     (case filteredIndices of
        Some s \<Rightarrow>
          if \<forall>i\<in>set s. i < length (sequences d)
          then Inr (map (\<lambda>i. slope (sequences d ! i)) s)
          else Inl TypeError
      | None \<Rightarrow> Inr (map slope (sequences d)))"

text \<open>The fitness values of a list of rows, for reading results.\<close>

definition fitness_of :: "sequence_row option list \<Rightarrow> real option list" where
  "fitness_of rs = map (map_option slope) rs"

subsection \<open>Conditional marginals\<close>

record stat_acc =
  acc_sum :: real
  acc_sumSq :: real
  acc_count :: nat
  acc_values :: "real list"

record marginal =
  mean :: real
  median :: real
  std :: real
  count_m :: nat
  values_m :: "real list"

text \<open>\<^verbatim>\<open>filteredIndices !== null && !filteredIndices.has(idx)\<close>\<close>

definition filtered_out :: "nat list option \<Rightarrow> nat \<Rightarrow> bool" where
  "filtered_out filteredIndices idx =
     (case filteredIndices of None \<Rightarrow> False | Some s \<Rightarrow> idx \<notin> set s)"

text \<open>The loop over one bucket (lines 152-159).\<close>

fun bucket_loop :: "data_store \<Rightarrow> nat list option \<Rightarrow> nat list \<Rightarrow> stat_acc \<Rightarrow> js_error + stat_acc" where
  "bucket_loop d fi [] a = Inr a"
| "bucket_loop d fi (idx # rest) a =
     (if filtered_out fi idx then bucket_loop d fi rest a
      else (case row_at d idx of
              None \<Rightarrow> Inl TypeError
            | Some r \<Rightarrow>
                bucket_loop d fi rest
                  (a\<lparr>acc_sum := acc_sum a + slope r,
                     acc_sumSq := acc_sumSq a + slope r * slope r,
                     acc_count := acc_count a + 1,
                     acc_values := acc_values a @ [slope r]\<rparr>)))"

text \<open>Lines 162-175, for \<open>count > 0\<close>; \<^verbatim>\<open>values.sort((a, b) => a - b)\<close> sorts ascending.\<close>

definition finish_marginal :: "stat_acc \<Rightarrow> marginal" where
  "finish_marginal a =
     (let count = acc_count a;
          mean = acc_sum a / real count;
          variance = (acc_sumSq a / real count) - (mean * mean);
          values = sort (acc_values a);
          median = (if count mod 2 = 0
                    then (values ! (count div 2 - 1) + values ! (count div 2)) / 2
                    else values ! (count div 2))
      in \<lparr>mean = mean, median = median, std = sqrt (max 0 variance),
          count_m = count, values_m = values\<rparr>)"

text \<open>
  The loop over the values present at the position (lines 145-177). A bucket that is not an
  own property makes \<^verbatim>\<open>for ... of\<close> throw, whether the read is undefined or inherited.
\<close>

fun aa_loop ::
  "data_store \<Rightarrow> buckets option \<Rightarrow> nat list option \<Rightarrow> string list \<Rightarrow>
   (string \<times> marginal) list \<Rightarrow> js_error + (string \<times> marginal) list"
where
  "aa_loop d ob fi [] results = Inr results"
| "aa_loop d ob fi (aa # aas) results =
     (case ob of
        None \<Rightarrow> Inl TypeError
      | Some b \<Rightarrow>
         (case map_of b aa of
            None \<Rightarrow> Inl TypeError
          | Some aaIndices \<Rightarrow>
             (case bucket_loop d fi aaIndices
                     \<lparr>acc_sum = 0, acc_sumSq = 0, acc_count = 0, acc_values = []\<rparr> of
                Inl e \<Rightarrow> Inl e
              | Inr a \<Rightarrow>
                  aa_loop d ob fi aas
                    (if acc_count a > 0 then AList.update aa (finish_marginal a) results
                     else results))))"

text \<open>\<^verbatim>\<open>computeConditionalMarginals\<close> (lines 139-180).\<close>

definition computeConditionalMarginals ::
  "data_store \<Rightarrow> nat \<Rightarrow> nat list option \<Rightarrow> js_error + (string \<times> marginal) list"
where
  "computeConditionalMarginals d pos filteredIndices =
     (case map_of (aasAtPosition d) pos of
        None \<Rightarrow> Inl TypeError
      | Some aas \<Rightarrow> aa_loop d (map_of (indexByPosition d) pos) filteredIndices aas [])"

subsection \<open>Position entropy\<close>






section \<open>App: state coordinator and URL hash\<close>

record app_state =
  filters :: filter_map
  filteredIndices :: "nat list option"
  sortBy :: string
  sortDir :: string
  searchQuery :: string
  hideStops :: bool
  colorScale :: string

text \<open>
  The coordinator's state together with \<^verbatim>\<open>window.location.hash\<close>, which \<^verbatim>\<open>saveHash\<close> writes
  and \<^verbatim>\<open>loadHash\<close> reads: the fragment with its leading \<^verbatim>\<open>#\<close>, or the empty string.
\<close>

record world =
  state :: app_state
  location_hash :: string

text \<open>
  How an operation that changes the state ends: it returns, or it throws; either way it
  leaves a state behind, since an exception undoes no assignment.
\<close>

datatype outcome = Returns world | Throws js_error world

text \<open>Lines 8-16.\<close>

definition initial_state :: app_state where
  "initial_state =
     \<lparr>filters = (\<lambda>_. None), filteredIndices = None, sortBy = ''slope'', sortDir = ''desc'',
      searchQuery = [], hideStops = False, colorScale = ''log''\<rparr>"

subsection \<open>Library functions of the platform, on ASCII strings\<close>

definition hex_char :: "nat \<Rightarrow> char" where
  "hex_char n = ''0123456789ABCDEF'' ! (n mod 16)"

definition digit_value :: "char \<Rightarrow> nat option" where
  "digit_value c =
     (let n = (of_char c :: nat) in
      if 48 \<le> n \<and> n \<le> 57 then Some (n - 48)
      else if 65 \<le> n \<and> n \<le> 90 then Some (n - 55)
      else if 97 \<le> n \<and> n \<le> 122 then Some (n - 87)
      else None)"

definition hex_value :: "char \<Rightarrow> nat option" where
  "hex_value c = (case digit_value c of Some v \<Rightarrow> if v < 16 then Some v else None | None \<Rightarrow> None)"

text \<open>
  \<^verbatim>\<open>encodeURIComponent\<close> (ECMAScript, 19.2.6.4): letters, digits and \<^verbatim>\<open>- _ . ! ~ * ' ( )\<close> are
  kept, every other character becomes \<^verbatim>\<open>%XX\<close> with upper-case hexadecimal digits.
\<close>

definition unreserved :: "char \<Rightarrow> bool" where
  "unreserved c =
     (let n = (of_char c :: nat) in
      (48 \<le> n \<and> n \<le> 57) \<or> (65 \<le> n \<and> n \<le> 90) \<or> (97 \<le> n \<and> n \<le> 122)
      \<or> c \<in> set [CHR ''-'', CHR ''_'', CHR ''.'', CHR ''!'', CHR ''~'', CHR ''*'', CHR 0x27,
                  CHR ''('', CHR '')''])"

definition encodeURIComponent :: "string \<Rightarrow> string" where
  "encodeURIComponent s =
     concat (map (\<lambda>c. if unreserved c then [c]
                       else [CHR ''%'', hex_char (of_char c div 16), hex_char (of_char c mod 16)]) s)"

text \<open>
  \<^verbatim>\<open>decodeURIComponent\<close> (ECMAScript, 19.2.6.2): a \<^verbatim>\<open>%\<close> that is not followed by two
  hexadecimal digits throws a URIError.
\<close>

fun decodeURIComponent :: "string \<Rightarrow> js_error + string" where
  "decodeURIComponent [] = Inr []"
| "decodeURIComponent (c # cs) =
     (if c = CHR ''%'' then
        (case cs of
           h # l # rest \<Rightarrow>
             (case (hex_value h, hex_value l) of
                (Some a, Some b) \<Rightarrow>
                  if 16 * a + b < 128
                  then (case decodeURIComponent rest of
                          Inl e \<Rightarrow> Inl e
                        | Inr t \<Rightarrow> Inr (char_of (16 * a + b) # t))
                  else Inl NonASCII
              | _ \<Rightarrow> Inl URIError)
         | _ \<Rightarrow> Inl URIError)
      else (case decodeURIComponent cs of Inl e \<Rightarrow> Inl e | Inr t \<Rightarrow> Inr (c # t)))"

text \<open>
  Percent-decoding of the URL standard, as \<^verbatim>\<open>URLSearchParams\<close> applies it: a \<^verbatim>\<open>%\<close> that is
  not followed by two hexadecimal digits stays as it is.
\<close>

fun percent_decode :: "string \<Rightarrow> string" where
  "percent_decode (c # h # l # rest) =
     (if c = CHR ''%'' then
        (case (hex_value h, hex_value l) of
           (Some a, Some b) \<Rightarrow> char_of (16 * a + b) # percent_decode rest
         | _ \<Rightarrow> c # percent_decode (h # l # rest))
      else c # percent_decode (h # l # rest))"
| "percent_decode cs = cs"

text \<open>\<^verbatim>\<open>String.prototype.split\<close> with a one-character separator.\<close>

fun split_on :: "char \<Rightarrow> string \<Rightarrow> string list" where
  "split_on sep [] = [[]]"
| "split_on sep (c # cs) =
     (if c = sep then [] # split_on sep cs
      else (case split_on sep cs of
              p # ps \<Rightarrow> (c # p) # ps
            | [] \<Rightarrow> [[c]]))"

text \<open>
  \<^verbatim>\<open>new URLSearchParams(s)\<close> (URL standard, application/x-www-form-urlencoded parsing): a
  leading \<^verbatim>\<open>?\<close> is dropped, the string is split at \<^verbatim>\<open>&\<close>, each non-empty piece at its first
  \<^verbatim>\<open>=\<close>; in name and value \<^verbatim>\<open>+\<close> becomes a space and percent-escapes are decoded.
  \<^verbatim>\<open>get\<close> returns the value of the first pair with the name.
\<close>

definition form_decode :: "string \<Rightarrow> string" where
  "form_decode s = percent_decode (map (\<lambda>c. if c = CHR ''+'' then CHR '' '' else c) s)"

definition URLSearchParams :: "string \<Rightarrow> (string \<times> string) list" where
  "URLSearchParams s =
     (let s' = (case s of c # cs \<Rightarrow> if c = CHR ''?'' then cs else s | [] \<Rightarrow> s)
      in map (\<lambda>piece. (form_decode (takeWhile (\<lambda>c. c \<noteq> CHR ''='') piece),
                        form_decode (drop 1 (dropWhile (\<lambda>c. c \<noteq> CHR ''='') piece))))
           (filter (\<lambda>piece. piece \<noteq> []) (split_on CHR ''&'' s')))"

definition params_get :: "(string \<times> string) list \<Rightarrow> string \<Rightarrow> string option" where
  "params_get params name = map_of params name"

text \<open>
  \<^verbatim>\<open>parseInt(s)\<close> (ECMAScript, 19.2.5): leading white space, a sign, a \<^verbatim>\<open>0x\<close> prefix, then
  the longest prefix of digits of the radix; NaN (here \<^const>\<open>None\<close>) when there is no digit.
\<close>

definition is_space :: "char \<Rightarrow> bool" where
  "is_space c = (c \<in> set [CHR '' '', CHR 0x09, CHR 0x0A, CHR 0x0B, CHR 0x0C, CHR 0x0D])"

definition in_radix :: "nat \<Rightarrow> char \<Rightarrow> bool" where
  "in_radix r c = (case digit_value c of Some v \<Rightarrow> v < r | None \<Rightarrow> False)"

definition digits_value :: "nat \<Rightarrow> string \<Rightarrow> nat" where
  "digits_value r ds =
     foldl (\<lambda>acc c. acc * r + (case digit_value c of Some v \<Rightarrow> v | None \<Rightarrow> 0)) 0 ds"

definition parseInt :: "string \<Rightarrow> int option" where
  "parseInt s =
     (let t = dropWhile is_space s;
          neg = (case t of c # _ \<Rightarrow> c = CHR ''-'' | [] \<Rightarrow> False);
          t1 = (case t of c # cs \<Rightarrow> if c = CHR ''-'' \<or> c = CHR ''+'' then cs else t | [] \<Rightarrow> t);
          hex = (case t1 of a # b # _ \<Rightarrow> a = CHR ''0'' \<and> (b = CHR ''x'' \<or> b = CHR ''X'')
                 | _ \<Rightarrow> False);
          radix = (if hex then 16 else 10);
          t2 = (if hex then drop 2 t1 else t1);
          ds = takeWhile (in_radix radix) t2
      in if ds = [] then None
         else Some ((if neg then - 1 else 1) * int (digits_value radix ds)))"

text \<open>The decimal string of a position, as \<^verbatim>\<open>pos + ':'\<close> builds it.\<close>

fun decimal :: "nat \<Rightarrow> string" where
  "decimal n = (if n < 10 then [hex_char n] else decimal (n div 10) @ [hex_char (n mod 10)])"

declare decimal.simps [simp del]

text \<open>\<^verbatim>\<open>parts.join(',')\<close>\<close>

fun join :: "string \<Rightarrow> string list \<Rightarrow> string" where
  "join sep [] = []"
| "join sep [p] = p"
| "join sep (p # q # ps) = p @ sep @ join sep (q # ps)"

subsection \<open>Persisting and restoring the filters\<close>

text \<open>
  \<^verbatim>\<open>saveHash\<close> (lines 87-101). \<^verbatim>\<open>history.replaceState\<close> with \<^verbatim>\<open>'#' + hash\<close> sets the fragment;
  with the bare path it removes the fragment.
\<close>

definition saveHash :: "world \<Rightarrow> world" where
  "saveHash w =
     (let parts = List.map_filter
                    (\<lambda>pos. case filters (state w) pos of
                              None \<Rightarrow> None
                            | Some v \<Rightarrow> Some (decimal pos @ '':'' @ encodeURIComponent v))
                    VARIABLE_POSITIONS;
          filterStr = join '','' parts;
          hash = (if filterStr \<noteq> [] then ''filters='' @ filterStr else [])
      in w\<lparr>location_hash := (if hash \<noteq> [] then ''#'' @ hash else [])\<rparr>)"

text \<open>
  The subscribers are renderers that only read the state (\<^verbatim>\<open>notify\<close>, lines 24-29); what
  \<^verbatim>\<open>notify\<close> changes is the fragment.
\<close>

definition notify :: "world \<Rightarrow> world" where
  "notify w = saveHash w"

text \<open>
  The loop over the pairs in \<^verbatim>\<open>loadHash\<close> (lines 111-117). Each valid pair is assigned to
  \<^verbatim>\<open>state.filters\<close> at once, so when \<^verbatim>\<open>decodeURIComponent\<close> throws the filters hold the pairs
  before it: the result is the filter map reached and the exception, if any.
\<close>

fun restore_pairs :: "filter_map \<Rightarrow> string list \<Rightarrow> filter_map \<times> js_error option" where
  "restore_pairs f [] = (f, None)"
| "restore_pairs f (pair # pairs) =
     (case split_on CHR '':'' pair of
        [] \<Rightarrow> restore_pairs f pairs
      | pos # rest \<Rightarrow>
          (let aa = (case rest of [] \<Rightarrow> None | a # _ \<Rightarrow> Some a) in
           case parseInt pos of
             None \<Rightarrow> restore_pairs f pairs
           | Some posNum \<Rightarrow>
               if posNum \<in> set (map int VARIABLE_POSITIONS) \<and> aa \<noteq> None \<and> aa \<noteq> Some []
               then (case decodeURIComponent (case aa of Some a \<Rightarrow> a | None \<Rightarrow> []) of
                       Inl e \<Rightarrow> (f, Some e)
                     | Inr v \<Rightarrow> restore_pairs (f(nat posNum := Some v)) pairs)
               else restore_pairs f pairs))"

text \<open>
  \<^verbatim>\<open>loadHash\<close> (lines 103-120). An exception in the loop or in \<^verbatim>\<open>getFilteredIndices\<close> leaves
  the filters as assigned and the matching set as it was (line 118 has not run).
\<close>

definition loadHash :: "data_store \<Rightarrow> world \<Rightarrow> outcome" where
  "loadHash d w =
     (let hash = drop 1 (location_hash w) in
      if hash = [] then Returns w
      else (case params_get (URLSearchParams hash) ''filters'' of
              None \<Rightarrow> Returns w
            | Some filterStr \<Rightarrow>
                if filterStr = [] then Returns w
                else (case restore_pairs (filters (state w)) (split_on CHR '','' filterStr) of
                        (f, Some e) \<Rightarrow> Throws e (w\<lparr>state := (state w)\<lparr>filters := f\<rparr>\<rparr>)
                      | (f, None) \<Rightarrow>
                          (case getFilteredIndices d f of
                             Inl e \<Rightarrow> Throws e (w\<lparr>state := (state w)\<lparr>filters := f\<rparr>\<rparr>)
                           | Inr fi \<Rightarrow>
                               Returns (w\<lparr>state := (state w)\<lparr>filters := f,
                                                                filteredIndices := fi\<rparr>\<rparr>)))))"

subsection \<open>Operations of the coordinator\<close>

text \<open>
  \<^verbatim>\<open>setFilter\<close> (lines 31-40). Lines 34 and 36 assign the filter before line 38 resolves it;
  when the resolution throws, the filter stays assigned, the matching set stays as it was
  and \<^verbatim>\<open>notify\<close> does not run.
\<close>

definition setFilter :: "data_store \<Rightarrow> nat \<Rightarrow> string \<Rightarrow> world \<Rightarrow> outcome" where
  "setFilter d pos aa w =
     (let f = (if filters (state w) pos = Some aa then (filters (state w))(pos := None)
               else (filters (state w))(pos := Some aa))
      in case getFilteredIndices d f of
           Inl e \<Rightarrow> Throws e (w\<lparr>state := (state w)\<lparr>filters := f\<rparr>\<rparr>)
         | Inr fi \<Rightarrow>
             Returns (notify (w\<lparr>state := (state w)\<lparr>filters := f, filteredIndices := fi\<rparr>\<rparr>)))"

text \<open>\<^verbatim>\<open>clearFilter\<close> (lines 42-46), with the same order of assignment and resolution.\<close>

definition clearFilter :: "data_store \<Rightarrow> nat \<Rightarrow> world \<Rightarrow> outcome" where
  "clearFilter d pos w =
     (let f = (filters (state w))(pos := None)
      in case getFilteredIndices d f of
           Inl e \<Rightarrow> Throws e (w\<lparr>state := (state w)\<lparr>filters := f\<rparr>\<rparr>)
         | Inr fi \<Rightarrow>
             Returns (notify (w\<lparr>state := (state w)\<lparr>filters := f, filteredIndices := fi\<rparr>\<rparr>)))"

text \<open>\<^verbatim>\<open>clearAllFilters\<close> (lines 48-54).\<close>

definition clearAllFilters :: "world \<Rightarrow> world" where
  "clearAllFilters w =
     notify (w\<lparr>state := (state w)
                 \<lparr>filters := fold (\<lambda>pos f. f(pos := None)) VARIABLE_POSITIONS (filters (state w)),
                  filteredIndices := None\<rparr>\<rparr>)"

text \<open>\<^verbatim>\<open>setSort\<close>, \<^verbatim>\<open>setSearch\<close>, \<^verbatim>\<open>setHideStops\<close>, \<^verbatim>\<open>setColorScale\<close> (lines 56-75).\<close>

definition setSort :: "string \<Rightarrow> string \<Rightarrow> world \<Rightarrow> world" where
  "setSort by dir w = notify (w\<lparr>state := (state w)\<lparr>sortBy := by, sortDir := dir\<rparr>\<rparr>)"

definition setSearch :: "string \<Rightarrow> world \<Rightarrow> world" where
  "setSearch query w = notify (w\<lparr>state := (state w)\<lparr>searchQuery := query\<rparr>\<rparr>)"

definition setHideStops :: "bool \<Rightarrow> world \<Rightarrow> world" where
  "setHideStops hide w = notify (w\<lparr>state := (state w)\<lparr>hideStops := hide\<rparr>\<rparr>)"

definition setColorScale :: "string \<Rightarrow> world \<Rightarrow> world" where
  "setColorScale scale w = notify (w\<lparr>state := (state w)\<lparr>colorScale := scale\<rparr>\<rparr>)"

text \<open>
  The \<^verbatim>\<open>hashchange\<close> listener (lines 254-261), which runs when the fragment has changed: it
  clears the four filters, calls \<^verbatim>\<open>loadHash\<close> and notifies.
\<close>

definition hashchange :: "data_store \<Rightarrow> world \<Rightarrow> outcome" where
  "hashchange d w =
     (case loadHash d
             (w\<lparr>state := (state w)
                  \<lparr>filters := fold (\<lambda>pos f. f(pos := None)) VARIABLE_POSITIONS
                                (filters (state w))\<rparr>\<rparr>) of
        Throws e w' \<Rightarrow> Throws e w'
      | Returns w' \<Rightarrow> Returns (notify w'))"

section \<open>Specification-level descriptions used in the statements\<close>

text \<open>
  The identifiers, in ascending order, of the rows whose index key at \<open>pos\<close> is \<open>aa\<close>, and
  the bucket the data model prescribes for \<open>aa\<close>: absent when no row carries the key.
\<close>

definition ids_with :: "sequence_row list \<Rightarrow> nat \<Rightarrow> string \<Rightarrow> nat list" where
  "ids_with rs pos aa = filter (\<lambda>j. index_key (seq (rs ! j)) pos = aa) [0..<length rs]"

definition bucket_of :: "sequence_row list \<Rightarrow> nat \<Rightarrow> string \<Rightarrow> nat list option" where
  "bucket_of rs pos aa = (if ids_with rs pos aa = [] then None else Some (ids_with rs pos aa))"

text \<open>The index holds, for each variable position, exactly the prescribed buckets.\<close>

definition index_ok :: "data_store \<Rightarrow> bool" where
  "index_ok d =
     (\<forall>pos\<in>set VARIABLE_POSITIONS.
        \<exists>b. map_of (indexByPosition d) pos = Some b
           \<and> (\<forall>aa. map_of b aa = bucket_of (sequences d) pos aa))"

text \<open>The fitness bounds that \<^verbatim>\<open>init\<close> maintains while it appends rows.\<close>

definition bounds_ok :: "data_store \<Rightarrow> bool" where
  "bounds_ok d =
     (maxSlope d = Max (insert 0 (slope ` set (sequences d)))
      \<and> minSlope d = (if sequences d = [] then PosInf
                       else Num (Min (slope ` set (sequences d)))))"



text \<open>Row \<open>j\<close> carries, at \<open>pos\<close>, an index key of the canonical 21-symbol alphabet.\<close>

definition canonical_at :: "sequence_row list \<Rightarrow> nat \<Rightarrow> nat \<Rightarrow> bool" where
  "canonical_at rs pos j = (index_key (seq (rs ! j)) pos \<in> set AA_ORDER)"

text \<open>Row \<open>j\<close> satisfies every constraint that the filter map puts on the positions \<open>ps\<close>.\<close>

definition row_matches :: "sequence_row list \<Rightarrow> filter_map \<Rightarrow> nat list \<Rightarrow> nat \<Rightarrow> bool" where
  "row_matches rs f ps j =
     (\<forall>pos\<in>set ps. case f pos of None \<Rightarrow> True | Some aa \<Rightarrow> index_key (seq (rs ! j)) pos = aa)"

text \<open>
  The matching set of section 4.2 of the specification: Unconstrained when no position is
  constrained, otherwise the rows that satisfy every constraint, in identifier order.
\<close>

definition resolve_spec :: "sequence_row list \<Rightarrow> filter_map \<Rightarrow> nat list \<Rightarrow> nat list option" where
  "resolve_spec rs f ps =
     (if \<forall>pos\<in>set ps. f pos = None then None
      else Some (filter (row_matches rs f ps) [0..<length rs]))"

text \<open>
  A filter map that requests, at the variable positions, no name of an inherited property.
\<close>

definition plain_filters :: "filter_map \<Rightarrow> bool" where
  "plain_filters f =
     (\<forall>pos\<in>set VARIABLE_POSITIONS. \<forall>aa. f pos = Some aa \<longrightarrow> aa \<notin> set Object_prototype_names)"

text \<open>
  The rows of a matching set, in the order of the set (all rows, in identifier order, when
  Unconstrained).
\<close>

definition matching_rows :: "data_store \<Rightarrow> nat list option \<Rightarrow> sequence_row list" where
  "matching_rows d S = (case S of None \<Rightarrow> sequences d | Some ids \<Rightarrow> map (\<lambda>i. sequences d ! i) ids)"

text \<open>Row \<open>j\<close> belongs to the matching set \<open>S\<close>: every row belongs to Unconstrained.\<close>

definition kept :: "nat list option \<Rightarrow> nat \<Rightarrow> bool" where
  "kept S j = (case S of None \<Rightarrow> True | Some ids \<Rightarrow> j \<in> set ids)"

text \<open>
  The identifiers of the bucket of \<open>aa\<close> at \<open>pos\<close> that the matching set keeps, and their
  fitness values, in identifier order.
\<close>

definition restricted_ids :: "sequence_row list \<Rightarrow> nat \<Rightarrow> nat list option \<Rightarrow> string \<Rightarrow> nat list" where
  "restricted_ids rs pos fi aa = filter (kept fi) (ids_with rs pos aa)"

definition restricted_fitness :: "sequence_row list \<Rightarrow> nat \<Rightarrow> nat list option \<Rightarrow> string \<Rightarrow> real list" where
  "restricted_fitness rs pos fi aa = map (\<lambda>j. slope (rs ! j)) (restricted_ids rs pos fi aa)"

text \<open>
  The statistics of section 4.3 of the specification, in its words: count; mean; the square
  root of the population variance \<open>(\<Sum>x\<^sup>2)/n - mean\<^sup>2\<close> clamped at \<open>0\<close>; the median of the sorted
  values, the average of the two middle ones for an even count.
\<close>

definition marginal_of :: "real list \<Rightarrow> marginal" where
  "marginal_of xs =
     (let n = length xs; m = sum_list xs / real n; s = sort xs
      in \<lparr>mean = m,
          median = (if even n then (s ! (n div 2 - 1) + s ! (n div 2)) / 2 else s ! (n div 2)),
          std = sqrt (max 0 (sum_list (map (\<lambda>x. x * x) xs) / real n - m * m)),
          count_m = n, values_m = s\<rparr>)"

text \<open>The entry of a value in the result: none when its restricted count is zero.\<close>

definition marginal_entry :: "sequence_row list \<Rightarrow> nat \<Rightarrow> nat list option \<Rightarrow> string \<Rightarrow> (string \<times> marginal) option" where
  "marginal_entry rs pos fi aa =
     (if restricted_fitness rs pos fi aa = [] then None
      else Some (aa, marginal_of (restricted_fitness rs pos fi aa)))"

text \<open>The conditional marginals of a position: the entries of the canonical values, in order.\<close>

definition marginals_spec :: "sequence_row list \<Rightarrow> nat \<Rightarrow> nat list option \<Rightarrow> (string \<times> marginal) list" where
  "marginals_spec rs pos fi = List.map_filter (marginal_entry rs pos fi) AA_ORDER"

text \<open>The sum of the counts of a result of \<^verbatim>\<open>computeConditionalMarginals\<close>.\<close>

definition count_sum :: "js_error + (string \<times> marginal) list \<Rightarrow> nat option" where
  "count_sum r = (case r of Inl e \<Rightarrow> None | Inr ms \<Rightarrow> Some (sum_list (map (\<lambda>(aa, m). count_m m) ms)))"





text \<open>
  The operations of the coordinator as one step function. \<open>Restore h\<close> is \<^verbatim>\<open>loadHash\<close> on a
  page whose fragment is \<open>h\<close>.
\<close>

datatype operation =
    SetFilter nat string
  | ClearFilter nat
  | ClearAllFilters
  | SetSort string string
  | SetSearch string
  | SetHideStops bool
  | SetColorScale string
  | Restore string

fun apply_operation :: "data_store \<Rightarrow> operation \<Rightarrow> world \<Rightarrow> outcome" where
  "apply_operation d (SetFilter pos aa) w = setFilter d pos aa w"
| "apply_operation d (ClearFilter pos) w = clearFilter d pos w"
| "apply_operation d ClearAllFilters w = Returns (clearAllFilters w)"
| "apply_operation d (SetSort sb sd) w = Returns (setSort sb sd w)"
| "apply_operation d (SetSearch query) w = Returns (setSearch query w)"
| "apply_operation d (SetHideStops hide) w = Returns (setHideStops hide w)"
| "apply_operation d (SetColorScale scale) w = Returns (setColorScale scale w)"
| "apply_operation d (Restore h) w = loadHash d (w\<lparr>location_hash := h\<rparr>)"

text \<open>The stored matching set is the filter engine's resolution of the stored filter map.\<close>

definition consistent :: "data_store \<Rightarrow> world \<Rightarrow> bool" where
  "consistent d w = (getFilteredIndices d (filters (state w)) = Inr (filteredIndices (state w)))"

definition is_field_mutation :: "operation \<Rightarrow> bool" where
  "is_field_mutation op =
     (case op of SetSort _ _ \<Rightarrow> True | SetSearch _ \<Rightarrow> True | SetHideStops _ \<Rightarrow> True
               | SetColorScale _ \<Rightarrow> True | _ \<Rightarrow> False)"

text \<open>
  An operation called twice in a row (an exception of the first call ends the sequence), and
  the selection at a position after an outcome that returns.
\<close>

definition twice :: "(world \<Rightarrow> outcome) \<Rightarrow> world \<Rightarrow> outcome" where
  "twice op w = (case op w of Throws e w' \<Rightarrow> Throws e w' | Returns w' \<Rightarrow> op w')"

definition selected :: "nat \<Rightarrow> outcome \<Rightarrow> string option option" where
  "selected pos r = (case r of Throws e w \<Rightarrow> None | Returns w \<Rightarrow> Some (filters (state w) pos))"

text \<open>
  Restoring, in a fresh session, the fragment that \<^verbatim>\<open>saveHash\<close> writes for a state, and the
  matching set of an outcome that returns.
\<close>

definition restore_saved :: "data_store \<Rightarrow> world \<Rightarrow> outcome" where
  "restore_saved d w =
     loadHash d \<lparr>state = initial_state, location_hash = location_hash (saveHash w)\<rparr>"

definition matching_set :: "outcome \<Rightarrow> (nat list option) option" where
  "matching_set r = (case r of Throws e w \<Rightarrow> None | Returns w \<Rightarrow> Some (filteredIndices (state w)))"

text \<open>
  A value that \<^verbatim>\<open>encodeURIComponent\<close> leaves as it is, and the text that \<^verbatim>\<open>saveHash\<close> pushes for
  a position.
\<close>

definition safe_value :: "string \<Rightarrow> bool" where
  "safe_value v = (v \<noteq> [] \<and> (\<forall>c\<in>set v. unreserved c))"

definition saved_part :: "filter_map \<Rightarrow> nat \<Rightarrow> string option" where
  "saved_part f pos =
     (case f pos of None \<Rightarrow> None | Some v \<Rightarrow> Some (decimal pos @ '':'' @ encodeURIComponent v))"

section \<open>Concrete inputs\<close>

text \<open>Four retained rows with fitness 5, 3, 9, 1.\<close>

definition raw4 :: "raw_row list" where
  "raw4 =
     [\<lparr>Protein_Seq = Some ''VRNGMSLHDALMCCLKDRGLQPECC'', Slope = Some 5, Rank = Some 2\<rparr>,
      \<lparr>Protein_Seq = Some ''VRNGMSLHDALMCCLKERGLQPECC'', Slope = Some 3, Rank = Some 3\<rparr>,
      \<lparr>Protein_Seq = Some ''VRNGMSLHDKLMCCLKDRGLQPECC'', Slope = Some 9, Rank = Some 1\<rparr>,
      \<lparr>Protein_Seq = Some ''VRNGMSLHDKLMCCLKERGLQPECC'', Slope = Some 1, Rank = Some 4\<rparr>]"


text \<open>
  A row with \<open>X\<close> at position 9, a row whose sequence has four characters, and a row with
  \<open>C\<close> at position 9.
\<close>

definition raw_odd :: "raw_row list" where
  "raw_odd =
     [\<lparr>Protein_Seq = Some ''VRNGMSLHDXLMCCLKDRGLQPECC'', Slope = Some 1, Rank = Some 1\<rparr>,
      \<lparr>Protein_Seq = Some ''VRNG'', Slope = Some 2, Rank = Some 2\<rparr>,
      \<lparr>Protein_Seq = Some ''VRNGMSLHDCLMCCLKDRGLQPECC'', Slope = Some 3, Rank = Some 3\<rparr>]"

text \<open>Two retained rows whose fitness values are both negative.\<close>

definition raw_negative :: "raw_row list" where
  "raw_negative =
     [\<lparr>Protein_Seq = Some ''VRNGMSLHDALMCCLKDRGLQPECC'', Slope = Some (- 2), Rank = Some 1\<rparr>,
      \<lparr>Protein_Seq = Some ''VRNGMSLHDKLMCCLKERGLQPECC'', Slope = Some (- 1), Rank = Some 2\<rparr>]"

text \<open>
  Over the four rows of \<open>raw4\<close>: the world after \<^verbatim>\<open>setFilter(9, 'K')\<close> on the initial state, and
  the world after restoring \<^verbatim>\<open>#filters=16:D\<close> on top of it.
\<close>

definition world_K :: world where
  "world_K = \<lparr>state = initial_state\<lparr>filters := (\<lambda>_. None)(9 := Some ''K''),
                                         filteredIndices := Some [2, 3]\<rparr>,
              location_hash = ''#filters=9:K''\<rparr>"

definition world_KD :: world where
  "world_KD = \<lparr>state = initial_state\<lparr>filters := (\<lambda>_. None)(9 := Some ''K'', 16 := Some ''D''),
                                          filteredIndices := Some [2]\<rparr>,
               location_hash = ''#filters=16:D''\<rparr>"

text \<open>
  Over the four rows of \<open>raw4\<close>: the worlds after \<^verbatim>\<open>setFilter(9, '%')\<close>, \<^verbatim>\<open>setFilter(9, ',')\<close> and
  \<^verbatim>\<open>setFilter(9, '')\<close> on the initial state.
\<close>

definition world_percent :: world where
  "world_percent = \<lparr>state = initial_state\<lparr>filters := (\<lambda>_. None)(9 := Some ''%''),
                                               filteredIndices := Some []\<rparr>,
                    location_hash = ''#filters=9:%25''\<rparr>"

definition world_comma :: world where
  "world_comma = \<lparr>state = initial_state\<lparr>filters := (\<lambda>_. None)(9 := Some '',''),
                                             filteredIndices := Some []\<rparr>,
                  location_hash = ''#filters=9:%2C''\<rparr>"

definition world_empty_value :: world where
  "world_empty_value = \<lparr>state = initial_state\<lparr>filters := (\<lambda>_. None)(9 := Some []),
                                                   filteredIndices := Some []\<rparr>,
                        location_hash = ''#filters=9:''\<rparr>"

text \<open>
  Five rows with equal fitness values among them: fitness 5, 3, 5, 1, 1 with ranks 11 to 15.
\<close>

definition raw_ties :: "raw_row list" where
  "raw_ties =
     [\<lparr>Protein_Seq = Some ''VRNGMSLHDALMCCLKDRGLQPECC'', Slope = Some 5, Rank = Some 11\<rparr>,
      \<lparr>Protein_Seq = Some ''VRNGMSLHDALMCCLKERGLQPECC'', Slope = Some 3, Rank = Some 12\<rparr>,
      \<lparr>Protein_Seq = Some ''VRNGMSLHDKLMCCLKDRGLQPECC'', Slope = Some 5, Rank = Some 13\<rparr>,
      \<lparr>Protein_Seq = Some ''VRNGMSLHDKLMCCLKERGLQPECC'', Slope = Some 1, Rank = Some 14\<rparr>,
      \<lparr>Protein_Seq = Some ''VRNGMSLHDCLMCCLKERGLQPECC'', Slope = Some 1, Rank = Some 15\<rparr>]"

text \<open>
  Over the four rows of \<open>raw4\<close>, states in which the stored matching set is not the resolution
  of the stored filters: the one that \<^verbatim>\<open>setFilter(9, 'constructor')\<close> leaves on the initial
  state, the one that \<^verbatim>\<open>loadHash\<close> leaves on \<^verbatim>\<open>#filters=9:K,12:%\<close>, and the one that the
  \<^verbatim>\<open>hashchange\<close> listener leaves when the fragment of \<open>world_K\<close> has been removed.
\<close>

definition world_constructor :: world where
  "world_constructor =
     \<lparr>state = initial_state\<lparr>filters := (\<lambda>_. None)(9 := Some ''constructor'')\<rparr>,
      location_hash = []\<rparr>"

definition world_half_restored :: world where
  "world_half_restored =
     \<lparr>state = initial_state\<lparr>filters := (\<lambda>_. None)(9 := Some ''K'')\<rparr>,
      location_hash = ''#filters=9:K,12:%''\<rparr>"

definition world_fragment_removed :: world where
  "world_fragment_removed =
     \<lparr>state = initial_state\<lparr>filteredIndices := Some [2, 3]\<rparr>, location_hash = []\<rparr>"

section \<open>Top and bottom extraction: the order of the two lists\<close>

lemma map_filter_id_Some: "List.map_filter id (map Some xs) = xs"
  by (induction xs) simp_all

lemma sort_slope_desc_Some:
  "sort_slope_desc (map Some rs) = map Some (sort_key (\<lambda>r. - slope r) rs)"
  by (simp add: sort_slope_desc_def map_filter_id_Some)

lemma sort_uminus: "sort (map uminus (xs::real list)) = map uminus (rev (sort xs))"
proof (rule properties_for_sort)
  show "mset (map uminus (rev (sort xs))) = mset (map uminus xs)"
    by simp
  have "sorted_wrt (\<lambda>x y. x \<le> y) (sort xs)"
    by simp
  then show "sorted (map uminus (rev (sort xs)))"
    by (simp add: sorted_map sorted_wrt_rev)
qed

lemma slope_sort_desc:
  "map slope (sort_key (\<lambda>r. - slope r) (rs :: sequence_row list)) = rev (sort (map slope rs))"
proof -
  let ?f = "\<lambda>r. - slope r"
  have neg: "map slope xs = map uminus (map ?f xs)" for xs :: "sequence_row list"
    by (simp add: comp_def)
  have "map ?f (sort_key ?f rs) = sort (map ?f rs)"
    by (rule properties_for_sort[symmetric]) simp_all
  also have "map ?f rs = map uminus (map slope rs)"
    by (simp add: comp_def)
  also have "sort (map uminus (map slope rs)) = map uminus (rev (sort (map slope rs)))"
    by (rule sort_uminus)
  finally have "map uminus (map ?f (sort_key ?f rs))
      = map uminus (map uminus (rev (sort (map slope rs))))"
    by (rule arg_cong)
  also have "\<dots> = rev (sort (map slope rs))"
    by (simp add: comp_def)
  finally show ?thesis
    using neg[of "sort_key ?f rs"] by simp
qed

lemma take_min_length: "take (length xs - (length xs - n)) xs = take n xs"
  by (cases "n \<le> length xs") simp_all

lemma materialized_rows:
  assumes "getAllSlopes d fi = Inr fits"
  shows "(case fi of Some s \<Rightarrow> map (row_at d) s | None \<Rightarrow> map Some (sequences d))
           = map Some (matching_rows d fi)"
    and "map slope (matching_rows d fi) = fits"
proof -
  show "(case fi of Some s \<Rightarrow> map (row_at d) s | None \<Rightarrow> map Some (sequences d))
           = map Some (matching_rows d fi)"
  proof (cases fi)
    case None
    then show ?thesis by (simp add: matching_rows_def)
  next
    case (Some s)
    with assms have "\<forall>i\<in>set s. i < length (sequences d)"
      by (auto simp: getAllSlopes_def split: if_splits)
    then have "map (row_at d) s = map Some (map (\<lambda>i. sequences d ! i) s)"
      by (simp add: row_at_def)
    with Some show ?thesis by (simp add: matching_rows_def)
  qed
  show "map slope (matching_rows d fi) = fits"
    using assms
    by (cases fi) (auto simp: getAllSlopes_def matching_rows_def comp_def split: if_splits)
qed

lemma top_bottom_fitness:
  assumes "getAllSlopes d fi = Inr fits"
  shows "fitness_of (top_rows (getTopBottom d n fi)) = map Some (take n (rev (sort fits)))"
    and "fitness_of (bottom_rows (getTopBottom d n fi)) =
           map Some (if n = 0 then sort fits else take n (sort fits))"
proof -
  define rs where "rs = matching_rows d fi"
  have d: "(case fi of Some s \<Rightarrow> map (row_at d) s | None \<Rightarrow> map Some (sequences d)) = map Some rs"
    and f: "map slope rs = fits"
    using materialized_rows[OF assms] by (simp_all add: rs_def)
  have s: "fitness_of (sort_slope_desc (map Some rs)) = map Some (rev (sort fits))"
    by (simp add: fitness_of_def sort_slope_desc_Some comp_def flip: f slope_sort_desc)
  show "fitness_of (top_rows (getTopBottom d n fi)) = map Some (take n (rev (sort fits)))"
  proof -
    have "fitness_of (take n (sort_slope_desc (map Some rs)))
        = take n (fitness_of (sort_slope_desc (map Some rs)))"
      by (simp add: fitness_of_def take_map)
    then show ?thesis
      by (simp add: getTopBottom_def d Let_def s take_map)
  qed
  have "fitness_of (rev (slice_neg n (sort_slope_desc (map Some rs))))
      = rev (slice_neg n (fitness_of (sort_slope_desc (map Some rs))))"
    by (simp add: fitness_of_def slice_neg_def rev_map drop_map)
  also have "\<dots> = map Some (if n = 0 then sort fits else take n (sort fits))"
    using take_min_length[of "sort fits" n]
    by (simp add: s slice_neg_def rev_map rev_drop drop_map take_map)
  finally show "fitness_of (bottom_rows (getTopBottom d n fi)) =
           map Some (if n = 0 then sort fits else take n (sort fits))"
    by (simp add: getTopBottom_def d Let_def)
qed

lemma top_bottom_rows:
  assumes "getAllSlopes d fi = Inr fits"
  shows "top_rows (getTopBottom d n fi)
           = map Some (take n (sort_key (\<lambda>r. - slope r) (matching_rows d fi)))"
    and "0 < n \<Longrightarrow> bottom_rows (getTopBottom d n fi)
           = map Some (rev (drop (length (matching_rows d fi) - n)
                              (sort_key (\<lambda>r. - slope r) (matching_rows d fi))))"
  using materialized_rows(1)[OF assms]
  by (simp_all add: getTopBottom_def Let_def sort_slope_desc_Some slice_neg_def take_map
        drop_map rev_map)

lemma sort_desc_sorted:
  "sorted_wrt (\<lambda>a b. slope b \<le> slope a) (sort_key (\<lambda>r. - slope r) (rs :: sequence_row list))"
proof -
  have "sorted (map (\<lambda>r. - slope r) (sort_key (\<lambda>r. - slope r) rs))"
    by simp
  then show ?thesis
    by (simp add: sorted_map)
qed

lemma sort_desc_stable:
  "filter (\<lambda>r. slope r = k) (sort_key (\<lambda>r. - slope r) (rs :: sequence_row list))
     = filter (\<lambda>r. slope r = k) rs"
  using sort_key_stable[of "\<lambda>r. - slope r" "- k" rs] by simp

text \<open>
  A permutation of \<open>rs\<close> that is descending in fitness and keeps rows of equal fitness in
  their order is determined by \<open>rs\<close>.
\<close>

lemma stable_descending_unique:
  fixes rs ys :: "sequence_row list"
  assumes "mset ys = mset rs"
    and "sorted_wrt (\<lambda>a b. slope b \<le> slope a) ys"
    and "\<And>k. filter (\<lambda>r. slope r = k) ys = filter (\<lambda>r. slope r = k) rs"
  shows "ys = sort_key (\<lambda>r. - slope r) rs"
proof (rule properties_for_sort_key[symmetric])
  show "mset ys = mset rs" by fact
  show "sorted (map (\<lambda>r. - slope r) ys)"
    using assms(2) by (simp add: sorted_map)
  show "filter (\<lambda>x. - slope k = - slope x) ys = filter (\<lambda>x. - slope k = - slope x) rs"
    for k :: sequence_row
    using assms(3)[of "slope k"] by (simp add: eq_commute)
qed

lemma raw4_slopes: "getAllSlopes (init raw4) None = Inr [5, 3, 9, 1]"
  by (simp add: getAllSlopes_def init_def raw4_def init_row_def fresh_store_def Let_def)

lemma raw_ties_slopes: "getAllSlopes (init raw_ties) None = Inr [5, 3, 5, 1, 1]"
  by (simp add: getAllSlopes_def init_def raw_ties_def init_row_def fresh_store_def Let_def)

lemma raw_ties_ranks:
  "map (map_option rank) (top_rows (getTopBottom (init raw_ties) 3 None))
     = [Some 11, Some 13, Some 12]"
  "map (map_option rank) (bottom_rows (getTopBottom (init raw_ties) 3 None))
     = [Some 15, Some 14, Some 12]"
  by code_simp+

text \<open>
  C1 (as amended). Whenever every identifier of the matching set names a row (or the set is
  Unconstrained) and \<open>n \<ge> 1\<close>, there is an order \<open>ys\<close> of the matching rows that is descending
  in fitness and keeps rows of equal fitness in their order in the matching set (a stable
  sort; these three properties determine \<open>ys\<close>, lemma \<open>stable_descending_unique\<close>) such that
  \<open>top\<close> is the first \<open>n\<close> rows of \<open>ys\<close> and \<open>bottom\<close> is the last \<open>n\<close> rows of \<open>ys\<close>, reversed
  (all rows when there are fewer than \<open>n\<close>). So the fitness values of \<open>top\<close> are the \<open>n\<close>
  largest in descending order and those of \<open>bottom\<close> are the \<open>n\<close> smallest in ascending order:
  the bottom list starts at the absolute minimum and runs upwards.
\<close>

theorem getTopBottom_extremes:
  assumes "getAllSlopes d fi = Inr fits" and "0 < n"
  shows "\<exists>ys. mset ys = mset (matching_rows d fi)
            \<and> sorted_wrt (\<lambda>a b. slope b \<le> slope a) ys
            \<and> (\<forall>k. filter (\<lambda>r. slope r = k) ys = filter (\<lambda>r. slope r = k) (matching_rows d fi))
            \<and> top_rows (getTopBottom d n fi) = map Some (take n ys)
            \<and> bottom_rows (getTopBottom d n fi) = map Some (rev (drop (length ys - n) ys))
            \<and> fitness_of (top_rows (getTopBottom d n fi)) = map Some (take n (rev (sort fits)))
            \<and> fitness_of (bottom_rows (getTopBottom d n fi)) = map Some (take n (sort fits))"
proof (intro exI[of _ "sort_key (\<lambda>r. - slope r) (matching_rows d fi)"] conjI allI)
  show "mset (sort_key (\<lambda>r. - slope r) (matching_rows d fi)) = mset (matching_rows d fi)"
    by simp
  show "sorted_wrt (\<lambda>a b. slope b \<le> slope a) (sort_key (\<lambda>r. - slope r) (matching_rows d fi))"
    by (rule sort_desc_sorted)
  show "filter (\<lambda>r. slope r = k) (sort_key (\<lambda>r. - slope r) (matching_rows d fi))
          = filter (\<lambda>r. slope r = k) (matching_rows d fi)" for k
    by (rule sort_desc_stable)
  show "top_rows (getTopBottom d n fi)
          = map Some (take n (sort_key (\<lambda>r. - slope r) (matching_rows d fi)))"
    by (rule top_bottom_rows(1)[OF assms(1)])
  show "bottom_rows (getTopBottom d n fi)
          = map Some (rev (drop (length (sort_key (\<lambda>r. - slope r) (matching_rows d fi)) - n)
                             (sort_key (\<lambda>r. - slope r) (matching_rows d fi))))"
    using top_bottom_rows(2)[OF assms] by simp
  show "fitness_of (top_rows (getTopBottom d n fi)) = map Some (take n (rev (sort fits)))"
    by (rule top_bottom_fitness(1)[OF assms(1)])
  show "fitness_of (bottom_rows (getTopBottom d n fi)) = map Some (take n (sort fits))"
    using top_bottom_fitness(2)[OF assms(1), of n] assms(2) by simp
qed

text \<open>
  C1, witness: the four rows with fitness 5, 3, 9, 1 and no filter give top 9, 5 and
  bottom 1, 3; of the five rows with fitness 5, 3, 5, 1, 1 and ranks 11 to 15, the top three
  are the rows of rank 11, 13, 12 (the two rows of fitness 5 in their input order) and the
  bottom three are the rows of rank 15, 14, 12.
\<close>

theorem getTopBottom_extremes_witness:
  "getAllSlopes (init raw4) None = Inr [5, 3, 9, 1]
   \<and> fitness_of (top_rows (getTopBottom (init raw4) 2 None)) = [Some 9, Some 5]
   \<and> fitness_of (bottom_rows (getTopBottom (init raw4) 2 None)) = [Some 1, Some 3]
   \<and> getAllSlopes (init raw_ties) None = Inr [5, 3, 5, 1, 1]
   \<and> map (map_option rank) (top_rows (getTopBottom (init raw_ties) 3 None))
       = [Some 11, Some 13, Some 12]
   \<and> map (map_option rank) (bottom_rows (getTopBottom (init raw_ties) 3 None))
       = [Some 15, Some 14, Some 12]
   \<and> fitness_of (top_rows (getTopBottom (init raw_ties) 3 None)) = [Some 5, Some 5, Some 3]
   \<and> fitness_of (bottom_rows (getTopBottom (init raw_ties) 3 None)) = [Some 1, Some 1, Some 3]"
proof -
  have two: "0 < (2::nat)" and three: "0 < (3::nat)" by simp_all
  from getTopBottom_extremes[OF raw4_slopes two]
  have a: "fitness_of (top_rows (getTopBottom (init raw4) 2 None))
             = map Some (take 2 (rev (sort [5, 3, 9, 1])))"
    and b: "fitness_of (bottom_rows (getTopBottom (init raw4) 2 None))
             = map Some (take 2 (sort [5, 3, 9, 1]))"
    by blast+
  from getTopBottom_extremes[OF raw_ties_slopes three]
  have c: "fitness_of (top_rows (getTopBottom (init raw_ties) 3 None))
             = map Some (take 3 (rev (sort [5, 3, 5, 1, 1])))"
    and d: "fitness_of (bottom_rows (getTopBottom (init raw_ties) 3 None))
             = map Some (take 3 (sort [5, 3, 5, 1, 1]))"
    by blast+
  show ?thesis
    unfolding a b c d using raw4_slopes raw_ties_slopes raw_ties_ranks by simp
qed

text \<open>
  C1, counterexample to the claim as stated: on the rows with fitness 5, 3, 9, 1 the bottom
  list is not 3, 1.
\<close>

theorem getTopBottom_bottom_counterexample:
  "fitness_of (bottom_rows (getTopBottom (init raw4) 2 None)) \<noteq> [Some 3, Some 1]"
  using top_bottom_fitness(2)[OF raw4_slopes, of 2] by simp

section \<open>The index built by init and the filter engine\<close>

lemma kept_filtered_out [simp]: "kept fi = (\<lambda>j. \<not> filtered_out fi j)"
  by (rule ext) (simp add: kept_def filtered_out_def split: option.split)

lemmas eval_object = object_get_def Object_prototype_names_def

lemma map_of_fold_map_entry:
  "distinct ps \<Longrightarrow>
   map_of (fold (\<lambda>pos ix'. AList.map_entry pos (g pos) ix') ps ix) pos =
     (if pos \<in> set ps then map_option (g pos) (map_of ix pos) else map_of ix pos)"
proof (induction ps arbitrary: ix)
  case Nil
  then show ?case by simp
next
  case (Cons p ps)
  then show ?case
    by (auto simp: map_of_map_entry split: option.splits)
qed

lemma map_of_index_row:
  "pos \<in> set VARIABLE_POSITIONS \<Longrightarrow>
   map_of (index_row s idx ix) pos = map_option (push_index (index_key s pos) idx) (map_of ix pos)"
  unfolding index_row_def
  by (subst map_of_fold_map_entry) (simp_all add: VARIABLE_POSITIONS_def)

lemma map_of_push_index:
  "map_of (push_index aa idx b) aa' =
     (if aa' = aa then Some ((case map_of b aa of None \<Rightarrow> [] | Some ids \<Rightarrow> ids) @ [idx])
      else map_of b aa')"
  by (simp add: push_index_def update_conv')

lemma ids_with_snoc:
  "ids_with (rs @ [r]) pos aa =
     ids_with rs pos aa @ (if index_key (seq r) pos = aa then [length rs] else [])"
proof -
  have "filter (\<lambda>j. index_key (seq ((rs @ [r]) ! j)) pos = aa) [0..<length rs]
      = filter (\<lambda>j. index_key (seq (rs ! j)) pos = aa) [0..<length rs]"
    by (rule filter_cong) (simp_all add: nth_append)
  then show ?thesis
    by (simp add: ids_with_def)
qed

lemma bucket_of_snoc:
  "bucket_of (rs @ [r]) pos aa =
     (if index_key (seq r) pos = aa
      then Some ((case bucket_of rs pos aa of None \<Rightarrow> [] | Some ids \<Rightarrow> ids) @ [length rs])
      else bucket_of rs pos aa)"
  by (simp add: bucket_of_def ids_with_snoc)

lemma index_ok_fresh: "index_ok fresh_store"
  by (auto simp: index_ok_def fresh_store_def VARIABLE_POSITIONS_def bucket_of_def ids_with_def)

lemma index_ok_push:
  assumes "index_ok d"
    and sq: "sequences d' = sequences d @ [r]"
    and ix: "indexByPosition d' = index_row (seq r) (length (sequences d)) (indexByPosition d)"
  shows "index_ok d'"
  unfolding index_ok_def
proof
  fix pos assume p: "pos \<in> set VARIABLE_POSITIONS"
  with assms obtain b where b: "map_of (indexByPosition d) pos = Some b"
    and bb: "\<And>aa. map_of b aa = bucket_of (sequences d) pos aa"
    by (auto simp: index_ok_def)
  let ?b = "push_index (index_key (seq r) pos) (length (sequences d)) b"
  have "map_of (indexByPosition d') pos = Some ?b"
    using p b by (simp add: ix map_of_index_row)
  moreover have "map_of ?b aa = bucket_of (sequences d') pos aa" for aa
    by (simp add: sq map_of_push_index bucket_of_snoc bb)
  ultimately show "\<exists>b. map_of (indexByPosition d') pos = Some b \<and>
             (\<forall>aa. map_of b aa = bucket_of (sequences d') pos aa)"
    by blast
qed

lemma index_ok_init_row:
  assumes ok: "index_ok d"
  shows "index_ok (init_row i row d)"
proof (cases "Protein_Seq row")
  case None
  with ok show ?thesis by (simp add: init_row_def)
next
  case (Some s)
  show ?thesis
  proof (cases "s = [] \<or> Slope row = None")
    case True
    with ok Some show ?thesis by (auto simp: init_row_def)
  next
    case False
    then obtain sl where sl: "Slope row = Some sl" and ne: "s \<noteq> []" by auto
    have "\<exists>r. sequences (init_row i row d) = sequences d @ [r] \<and> seq r = s"
      by (simp add: init_row_def Some sl ne Let_def)
    then obtain r where r: "sequences (init_row i row d) = sequences d @ [r]" "seq r = s"
      by blast
    have "indexByPosition (init_row i row d)
        = index_row (seq r) (length (sequences d)) (indexByPosition d)"
      by (simp add: init_row_def Some sl ne Let_def r(2))
    with ok r(1) show ?thesis by (rule index_ok_push)
  qed
qed

lemma index_ok_init_loop: "index_ok d \<Longrightarrow> index_ok (init_loop i rows d)"
  by (induction rows arbitrary: i d) (simp_all add: index_ok_init_row)

lemma sequences_init: "sequences (init raw) = sequences (init_loop 0 raw fresh_store)"
  and indexByPosition_init: "indexByPosition (init raw) = indexByPosition (init_loop 0 raw fresh_store)"
  and totalCount_init: "totalCount (init raw) = length (sequences (init raw))"
  by (simp_all add: init_def Let_def)

lemma index_ok_init: "index_ok (init raw)"
  using index_ok_init_loop[OF index_ok_fresh, of 0 raw]
  by (simp add: index_ok_def sequences_init indexByPosition_init)

lemma aasAtPosition_init:
  assumes "pos \<in> set VARIABLE_POSITIONS"
  shows "\<exists>b. map_of (indexByPosition (init raw)) pos = Some b
           \<and> map_of (aasAtPosition (init raw)) pos = Some (present_aas b)"
proof -
  from index_ok_init[of raw] assms obtain b where
    b: "map_of (indexByPosition (init raw)) pos = Some b" by (auto simp: index_ok_def)
  have "map_of (aasAtPosition (init raw)) pos =
      Some (present_aas (case map_of (indexByPosition (init raw)) pos of None \<Rightarrow> [] | Some b \<Rightarrow> b))"
    using assms
    by (simp add: init_def Let_def map_of_map_restrict restrict_map_def)
  with b show ?thesis by simp
qed


lemma foldl_Set_add: "distinct (acc @ xs) \<Longrightarrow> foldl Set_add acc xs = acc @ xs"
  by (induction xs arbitrary: acc) (auto simp: Set_add_def)

lemma new_Set_distinct: "distinct xs \<Longrightarrow> new_Set xs = xs"
  by (simp add: new_Set_def foldl_Set_add)

lemma foldl_intersect:
  "distinct (acc @ m) \<Longrightarrow>
   foldl (\<lambda>newResult idx. if idx \<in> set r then Set_add newResult idx else newResult) acc m
     = acc @ filter (\<lambda>i. i \<in> set r) m"
  by (induction m arbitrary: acc) (auto simp: Set_add_def)

lemma intersect_distinct: "distinct m \<Longrightarrow> intersect r m = filter (\<lambda>i. i \<in> set r) m"
  by (simp add: intersect_def foldl_intersect)

lemma distinct_ids_with: "distinct (ids_with rs pos aa)"
  by (simp add: ids_with_def)

lemma row_matches_Nil: "row_matches rs f [] j"
  by (simp add: row_matches_def)

lemma row_matches_Cons:
  "row_matches rs f (pos # ps) j \<longleftrightarrow>
     (case f pos of None \<Rightarrow> True | Some aa \<Rightarrow> index_key (seq (rs ! j)) pos = aa)
     \<and> row_matches rs f ps j"
  by (simp add: row_matches_def)

lemma row_matches_Cons_None:
  "f pos = None \<Longrightarrow> row_matches rs f (pos # ps) = row_matches rs f ps"
  by (rule ext) (simp add: row_matches_Cons)

lemma row_matches_Cons_Some:
  "f pos = Some aa \<Longrightarrow>
   row_matches rs f (pos # ps) = (\<lambda>j. index_key (seq (rs ! j)) pos = aa \<and> row_matches rs f ps j)"
  by (rule ext) (simp add: row_matches_Cons)

lemma index_key_plain: "index_key s pos \<notin> set Object_prototype_names"
  by (auto simp: index_key_def char_at_def Object_prototype_names_def split: option.splits if_splits)

lemma ids_with_inherited: "aa \<in> set Object_prototype_names \<Longrightarrow> ids_with rs pos aa = []"
  using index_key_plain by (auto simp: ids_with_def filter_empty_conv)

lemma object_get_bucket:
  assumes "\<And>aa. map_of b aa = bucket_of rs pos aa"
  shows "object_get b aa =
           (if ids_with rs pos aa \<noteq> [] then Own (ids_with rs pos aa)
            else if aa \<in> set Object_prototype_names then Inherited else Absent)"
  by (simp add: object_get_def assms bucket_of_def)

text \<open>
  The loop of \<^verbatim>\<open>getFilteredIndices\<close> on a well-formed index: it throws a TypeError or returns
  the matching set of the specification, and it returns when no requested value is the name
  of an inherited property.
\<close>

lemma filter_loop_returns:
  assumes "\<forall>pos\<in>set ps. map_of ix pos \<noteq> None"
    and "\<forall>pos\<in>set ps. \<forall>aa. f pos = Some aa \<longrightarrow> aa \<notin> set Object_prototype_names"
  shows "\<exists>r. filter_loop ix f ps result = Inr r"
  using assms
proof (induction ps arbitrary: result)
  case Nil
  then show ?case by simp
next
  case (Cons pos ps)
  then show ?case
    by (auto simp: object_get_def split: option.splits property.splits)
qed

lemma filter_loop_Some:
  assumes "index_ok d" and "set ps \<subseteq> set VARIABLE_POSITIONS"
  shows "filter_loop (indexByPosition d) f ps (Some (filter Q [0..<length (sequences d)]))
           = Inl TypeError
       \<or> filter_loop (indexByPosition d) f ps (Some (filter Q [0..<length (sequences d)]))
           = Inr (Some (filter (\<lambda>j. Q j \<and> row_matches (sequences d) f ps j)
                      [0..<length (sequences d)]))"
  using assms(2)
proof (induction ps arbitrary: Q)
  case Nil
  then show ?case by (simp add: row_matches_Nil)
next
  case (Cons pos ps)
  let ?rs = "sequences d"
  let ?N = "length ?rs"
  from Cons.prems assms(1) obtain b where b: "map_of (indexByPosition d) pos = Some b"
    and bb: "\<And>aa. map_of b aa = bucket_of ?rs pos aa"
    by (auto simp: index_ok_def)
  note og = object_get_bucket[of b ?rs pos, OF bb]
  from Cons.prems have sub: "set ps \<subseteq> set VARIABLE_POSITIONS" by simp
  show ?case
  proof (cases "f pos")
    case None
    then show ?thesis
      using Cons.IH[OF sub, of Q] by (simp add: row_matches_Cons)
  next
    case (Some aa)
    show ?thesis
    proof (cases "ids_with ?rs pos aa = []")
      case True
      then have "\<And>j. j < ?N \<Longrightarrow> index_key (seq (?rs ! j)) pos \<noteq> aa"
        by (auto simp: ids_with_def filter_empty_conv)
      then have "filter (\<lambda>j. Q j \<and> row_matches ?rs f (pos # ps) j) [0..<?N] = []"
        by (auto simp: filter_empty_conv row_matches_Cons Some)
      with True show ?thesis
        by (simp add: Some b og)
    next
      case False
      have "intersect (filter Q [0..<?N]) (ids_with ?rs pos aa)
          = filter (\<lambda>j. Q j \<and> index_key (seq (?rs ! j)) pos = aa) [0..<?N]"
        by (auto simp: intersect_distinct distinct_ids_with ids_with_def intro: filter_cong)
      with False show ?thesis
        using Cons.IH[OF sub, of "\<lambda>j. Q j \<and> index_key (seq (?rs ! j)) pos = aa"]
        by (simp add: Some b og row_matches_Cons conj_assoc)
    qed
  qed
qed

lemma resolve_spec_Cons_None:
  "f pos = None \<Longrightarrow> resolve_spec rs f (pos # ps) = resolve_spec rs f ps"
  by (simp add: resolve_spec_def row_matches_Cons_None)

lemma filter_loop_None:
  assumes "index_ok d" and "set ps \<subseteq> set VARIABLE_POSITIONS"
  shows "filter_loop (indexByPosition d) f ps None = Inl TypeError
       \<or> filter_loop (indexByPosition d) f ps None = Inr (resolve_spec (sequences d) f ps)"
  using assms(2)
proof (induction ps)
  case Nil
  then show ?case by (simp add: resolve_spec_def)
next
  case (Cons pos ps)
  let ?rs = "sequences d"
  let ?N = "length ?rs"
  from Cons.prems assms(1) obtain b where b: "map_of (indexByPosition d) pos = Some b"
    and bb: "\<And>aa. map_of b aa = bucket_of ?rs pos aa"
    by (auto simp: index_ok_def)
  note og = object_get_bucket[of b ?rs pos, OF bb]
  from Cons.prems have sub: "set ps \<subseteq> set VARIABLE_POSITIONS" by simp
  show ?case
  proof (cases "f pos")
    case None
    then show ?thesis
      using Cons.IH[OF sub] by (simp add: resolve_spec_Cons_None)
  next
    case (Some aa)
    show ?thesis
    proof (cases "ids_with ?rs pos aa = []")
      case True
      then have "\<And>j. j < ?N \<Longrightarrow> index_key (seq (?rs ! j)) pos \<noteq> aa"
        by (auto simp: ids_with_def filter_empty_conv)
      then have "filter (row_matches ?rs f (pos # ps)) [0..<?N] = []"
        by (auto simp: filter_empty_conv row_matches_Cons Some)
      with True show ?thesis
        by (simp add: Some b og resolve_spec_def)
    next
      case False
      have "new_Set (ids_with ?rs pos aa)
          = filter (\<lambda>j. index_key (seq (?rs ! j)) pos = aa) [0..<?N]"
        by (simp add: new_Set_distinct distinct_ids_with) (simp add: ids_with_def)
      with False show ?thesis
        using filter_loop_Some[OF assms(1) sub, of f "\<lambda>j. index_key (seq (?rs ! j)) pos = aa"]
        by (simp add: Some b og resolve_spec_def row_matches_Cons_Some)
    qed
  qed
qed

lemma buckets_exist_init:
  "\<forall>pos\<in>set VARIABLE_POSITIONS. map_of (indexByPosition (init raw)) pos \<noteq> None"
  using index_ok_init[of raw] by (auto simp: index_ok_def)

text \<open>
  \<^verbatim>\<open>getFilteredIndices\<close> on the index built by \<^verbatim>\<open>init\<close>: whenever it returns, it returns the
  matching set of the specification; it returns for filters that request no inherited name.
\<close>

lemma getFilteredIndices_cases:
  "getFilteredIndices (init raw) f = Inl TypeError
   \<or> getFilteredIndices (init raw) f
       = Inr (resolve_spec (sequences (init raw)) f VARIABLE_POSITIONS)"
  unfolding getFilteredIndices_def
  by (rule filter_loop_None[OF index_ok_init]) simp


lemma getFilteredIndices_init:
  assumes "plain_filters f"
  shows "getFilteredIndices (init raw) f
     = Inr (resolve_spec (sequences (init raw)) f VARIABLE_POSITIONS)"
proof -
  from assms have "\<exists>r. getFilteredIndices (init raw) f = Inr r"
    unfolding getFilteredIndices_def
    by (intro filter_loop_returns buckets_exist_init) (simp add: plain_filters_def)
  with getFilteredIndices_cases[of raw f] show ?thesis by auto
qed


lemma plain_filters_clear: "plain_filters f \<Longrightarrow> plain_filters (f(pos := None))"
  by (simp add: plain_filters_def)

lemma plain_filters_set:
  "plain_filters f \<Longrightarrow> aa \<notin> set Object_prototype_names \<Longrightarrow> plain_filters (f(pos := Some aa))"
  by (simp add: plain_filters_def)

section \<open>Unknown filter values\<close>

lemma filter_loop_absent:
  assumes "\<forall>p\<in>set ps. map_of ix p \<noteq> None"
    and "\<forall>p\<in>set ps. \<forall>v. f p = Some v \<longrightarrow> v \<notin> set Object_prototype_names"
    and "pos \<in> set ps" and "f pos = Some aa"
    and "map_of ix pos = Some b" and "map_of b aa = None"
  shows "filter_loop ix f ps result = Inr (Some [])"
  using assms(1,2,3)
proof (induction ps arbitrary: result)
  case Nil
  then show ?case by simp
next
  case (Cons p ps)
  show ?case
  proof (cases "p = pos")
    case True
    with assms(4-6) Cons.prems(2) show ?thesis by (simp add: object_get_def)
  next
    case False
    with Cons.prems have in_ps: "pos \<in> set ps" and ex: "\<forall>q\<in>set ps. map_of ix q \<noteq> None"
      and pl: "\<forall>q\<in>set ps. \<forall>v. f q = Some v \<longrightarrow> v \<notin> set Object_prototype_names"
      and pp: "\<And>v. f p = Some v \<Longrightarrow> v \<notin> set Object_prototype_names"
      by auto
    from Cons.prems obtain bp where bp: "map_of ix p = Some bp" by auto
    show ?thesis
      using Cons.IH[OF ex pl in_ps] bp pp
      by (auto simp: object_get_def split: option.splits)
  qed
qed

text \<open>
  What holds of unknown values: after the index build, a filter state that requests no name
  of an inherited property and in which some variable position requests a value that has no
  bucket at that position resolves, without an exception, to the empty constrained set,
  whatever the other positions request.
\<close>

lemma unknown_value_plain:
  assumes "plain_filters f" and "pos \<in> set VARIABLE_POSITIONS" and "f pos = Some aa"
    and "map_of (indexByPosition (init raw)) pos = Some b" and "map_of b aa = None"
  shows "getFilteredIndices (init raw) f = Inr (Some [])"
  unfolding getFilteredIndices_def
  using buckets_exist_init assms(1)[unfolded plain_filters_def] assms(2-5)
  by (rule filter_loop_absent)

lemma init_raw4:
  "init raw4 =
     \<lparr>sequences =
        [\<lparr>p9 = ''A'', p12 = ''C'', p13 = ''C'', p16 = ''D'', slope = 5, rank = 2,
          seq = ''VRNGMSLHDALMCCLKDRGLQPECC'', hasStop = False\<rparr>,
         \<lparr>p9 = ''A'', p12 = ''C'', p13 = ''C'', p16 = ''E'', slope = 3, rank = 3,
          seq = ''VRNGMSLHDALMCCLKERGLQPECC'', hasStop = False\<rparr>,
         \<lparr>p9 = ''K'', p12 = ''C'', p13 = ''C'', p16 = ''D'', slope = 9, rank = 1,
          seq = ''VRNGMSLHDKLMCCLKDRGLQPECC'', hasStop = False\<rparr>,
         \<lparr>p9 = ''K'', p12 = ''C'', p13 = ''C'', p16 = ''E'', slope = 1, rank = 4,
          seq = ''VRNGMSLHDKLMCCLKERGLQPECC'', hasStop = False\<rparr>],
      indexByPosition =
        [(9, [(''A'', [0, 1]), (''K'', [2, 3])]), (12, [(''C'', [0, 1, 2, 3])]),
         (13, [(''C'', [0, 1, 2, 3])]), (16, [(''D'', [0, 2]), (''E'', [1, 3])])],
      aasAtPosition = [(9, [''A'', ''K'']), (12, [''C'']), (13, [''C'']), (16, [''D'', ''E''])],
      totalCount = 4, maxSlope = 9, minSlope = Num 1, percentile1 = 9, percentile10 = 9\<rparr>"
  by code_simp

text \<open>
  C7, at the failing input: the name of an inherited property. On the four rows the bucket
  map of position 9 has the two keys \<open>A\<close> and \<open>K\<close>, so the value \<^verbatim>\<open>constructor\<close> is absent
  from it; the filter state that requests it at position 9 (the page opened on
  \<^verbatim>\<open>#filters=9:constructor\<close> resolves it) makes \<^verbatim>\<open>getFilteredIndices\<close> throw a TypeError
  instead of returning the empty constrained set, and so do the state that also requests the
  absent \<open>Z\<close> at position 12 and the state that requests \<open>K\<close> at 9 and \<^verbatim>\<open>constructor\<close> at 12.
  A value that is absent and not an inherited name gives the empty constrained set.
\<close>

theorem unknown_value_inherited_name:
  "map_of (indexByPosition (init raw4)) 9 = Some [(''A'', [0, 1]), (''K'', [2, 3])]
   \<and> map_of [(''A'', [0, 1]), (''K'', [2, 3::nat])] ''constructor'' = None
   \<and> getFilteredIndices (init raw4) ((\<lambda>_. None)(9 := Some ''constructor'')) = Inl TypeError
   \<and> getFilteredIndices (init raw4) ((\<lambda>_. None)(9 := Some ''constructor'', 12 := Some ''Z''))
       = Inl TypeError
   \<and> getFilteredIndices (init raw4) ((\<lambda>_. None)(9 := Some ''K'', 12 := Some ''constructor''))
       = Inl TypeError
   \<and> getFilteredIndices (init raw4) ((\<lambda>_. None)(9 := Some ''K'', 12 := Some ''Z''))
       = Inr (Some [])"
  by (simp add: getFilteredIndices_def VARIABLE_POSITIONS_def init_raw4 object_get_def
        Object_prototype_names_def new_Set_def Set_add_def)

section \<open>The coordinator\<close>

lemma state_saveHash [simp]: "state (saveHash w) = state w"
  by (simp add: saveHash_def Let_def)

lemma state_notify [simp]: "state (notify w) = state w"
  by (simp add: notify_def)

lemma setFilter_set:
  assumes "filters (state w) pos \<noteq> Some aa"
    and "plain_filters ((filters (state w))(pos := Some aa))"
  shows "setFilter (init raw) pos aa w =
     Returns (notify (w\<lparr>state := (state w)
        \<lparr>filters := (filters (state w))(pos := Some aa),
         filteredIndices := resolve_spec (sequences (init raw))
            ((filters (state w))(pos := Some aa)) VARIABLE_POSITIONS\<rparr>\<rparr>))"
  using assms(1) by (simp add: setFilter_def getFilteredIndices_init[OF assms(2)] Let_def)

lemma setFilter_clear:
  assumes "filters (state w) pos = Some aa"
    and "plain_filters ((filters (state w))(pos := None))"
  shows "setFilter (init raw) pos aa w =
     Returns (notify (w\<lparr>state := (state w)
        \<lparr>filters := (filters (state w))(pos := None),
         filteredIndices := resolve_spec (sequences (init raw))
            ((filters (state w))(pos := None)) VARIABLE_POSITIONS\<rparr>\<rparr>))"
  using assms(1) by (simp add: setFilter_def getFilteredIndices_init[OF assms(2)] Let_def)

lemma clearFilter_init:
  assumes "plain_filters ((filters (state w))(pos := None))"
  shows "clearFilter (init raw) pos w =
     Returns (notify (w\<lparr>state := (state w)
        \<lparr>filters := (filters (state w))(pos := None),
         filteredIndices := resolve_spec (sequences (init raw))
            ((filters (state w))(pos := None)) VARIABLE_POSITIONS\<rparr>\<rparr>))"
  by (simp add: clearFilter_def getFilteredIndices_init[OF assms] Let_def)

lemma setFilter_toggle:
  assumes "filters (state w) pos \<noteq> Some aa"
    and "plain_filters ((filters (state w))(pos := Some aa))"
  shows "selected pos (setFilter (init raw) pos aa w) = Some (Some aa)"
    and "selected pos (twice (setFilter (init raw) pos aa) w) = Some None"
proof -
  let ?w1 = "notify (w\<lparr>state := (state w)
        \<lparr>filters := (filters (state w))(pos := Some aa),
         filteredIndices := resolve_spec (sequences (init raw))
            ((filters (state w))(pos := Some aa)) VARIABLE_POSITIONS\<rparr>\<rparr>)"
  have first: "setFilter (init raw) pos aa w = Returns ?w1"
    by (rule setFilter_set[OF assms])
  then show "selected pos (setFilter (init raw) pos aa w) = Some (Some aa)"
    by (simp add: selected_def)
  have sel: "filters (state ?w1) pos = Some aa" by simp
  from plain_filters_clear[OF assms(2), of pos]
  have "plain_filters ((filters (state ?w1))(pos := None))" by simp
  from setFilter_clear[OF sel this, of raw]
  show "selected pos (twice (setFilter (init raw) pos aa) w) = Some None"
    by (simp add: twice_def first selected_def)
qed

lemma setFilter_retoggle:
  assumes "filters (state w) pos = Some aa" and "plain_filters (filters (state w))"
  shows "selected pos (setFilter (init raw) pos aa w) = Some None"
    and "selected pos (twice (setFilter (init raw) pos aa) w) = Some (Some aa)"
proof -
  let ?w1 = "notify (w\<lparr>state := (state w)
        \<lparr>filters := (filters (state w))(pos := None),
         filteredIndices := resolve_spec (sequences (init raw))
            ((filters (state w))(pos := None)) VARIABLE_POSITIONS\<rparr>\<rparr>)"
  have first: "setFilter (init raw) pos aa w = Returns ?w1"
    by (rule setFilter_clear[OF assms(1) plain_filters_clear[OF assms(2)]])
  then show "selected pos (setFilter (init raw) pos aa w) = Some None"
    by (simp add: selected_def)
  have sel: "filters (state ?w1) pos \<noteq> Some aa" by simp
  have "(filters (state w))(pos := Some aa) = filters (state w)"
    using assms(1) by (simp add: fun_upd_idem)
  with assms(2) have "plain_filters ((filters (state ?w1))(pos := Some aa))" by simp
  from setFilter_set[OF sel this, of raw]
  show "selected pos (twice (setFilter (init raw) pos aa) w) = Some (Some aa)"
    by (simp add: twice_def first selected_def)
qed

lemma plain_world_K: "plain_filters (filters (state world_K))"
  by (simp add: plain_filters_def world_K_def VARIABLE_POSITIONS_def Object_prototype_names_def)

text \<open>
  C8 (as amended). From a state in which \<open>aa\<close> is not the value selected at \<open>pos\<close>, and in
  which neither \<open>aa\<close> nor a value selected at a variable position is the name of an inherited
  property, the first \<^verbatim>\<open>setFilter(pos, aa)\<close> returns and selects \<open>aa\<close> (replacing any other
  selection) and the second one returns and clears the position.
\<close>

theorem setFilter_twice_unconstrained:
  assumes "filters (state w) pos \<noteq> Some aa"
    and "plain_filters ((filters (state w))(pos := Some aa))"
  shows "selected pos (setFilter (init raw) pos aa w) = Some (Some aa)
       \<and> selected pos (twice (setFilter (init raw) pos aa) w) = Some None"
  using setFilter_toggle[OF assms] by simp

text \<open>C8, witness: position 9 holds \<open>K\<close>, and \<open>C\<close> is set twice.\<close>

theorem setFilter_twice_unconstrained_witness:
  "filters (state world_K) 9 \<noteq> Some ''C''
   \<and> plain_filters ((filters (state world_K))(9 := Some ''C''))
   \<and> selected 9 (setFilter (init raw4) 9 ''C'' world_K) = Some (Some ''C'')
   \<and> selected 9 (twice (setFilter (init raw4) 9 ''C'') world_K) = Some None"
proof -
  have h: "filters (state world_K) 9 \<noteq> Some ''C''"
    by (simp add: world_K_def)
  have p: "plain_filters ((filters (state world_K))(9 := Some ''C''))"
    by (simp add: plain_filters_def world_K_def VARIABLE_POSITIONS_def
        Object_prototype_names_def)
  from setFilter_twice_unconstrained[OF h p, of raw4] h p show ?thesis by simp
qed

lemma world_K_reached:
  "setFilter (init raw4) 9 ''K'' \<lparr>state = initial_state, location_hash = []\<rparr> = Returns world_K"
  by (simp add: setFilter_def getFilteredIndices_def world_K_def initial_state_def notify_def
      saveHash_def VARIABLE_POSITIONS_def init_raw4 new_Set_def Set_add_def object_get_def
      decimal.simps hex_char_def encodeURIComponent_def unreserved_def Let_def)

text \<open>
  C8, counterexample to the claim as stated: in the state reached by \<^verbatim>\<open>setFilter(9, 'K')\<close>,
  where \<open>K\<close> is already selected, two further calls of \<^verbatim>\<open>setFilter(9, 'K')\<close> leave position 9
  constrained to \<open>K\<close>.
\<close>

theorem setFilter_twice_counterexample:
  "setFilter (init raw4) 9 ''K'' \<lparr>state = initial_state, location_hash = []\<rparr> = Returns world_K
   \<and> selected 9 (twice (setFilter (init raw4) 9 ''K'') world_K) = Some (Some ''K'')"
proof -
  have "filters (state world_K) 9 = Some ''K''" by (simp add: world_K_def)
  from setFilter_retoggle(2)[OF this plain_world_K, of raw4] world_K_reached
  show ?thesis by simp
qed

text \<open>
  What holds of the invariant of the coordinator. An operation that returns leaves the stored
  matching set equal to the resolution of the stored filter map, whatever the index (the
  restore, provided that the state it runs in is consistent), and the four field mutations
  return and change neither the filter map nor the matching set.
\<close>

lemma consistent_initial: "consistent d \<lparr>state = initial_state, location_hash = h\<rparr>"
  by (simp add: consistent_def getFilteredIndices_def initial_state_def VARIABLE_POSITIONS_def)

lemma consistent_setFilter: "setFilter d pos aa w = Returns w' \<Longrightarrow> consistent d w'"
  by (auto simp: setFilter_def consistent_def Let_def split: sum.splits if_splits)

lemma consistent_clearFilter: "clearFilter d pos w = Returns w' \<Longrightarrow> consistent d w'"
  by (auto simp: clearFilter_def consistent_def Let_def split: sum.splits)

lemma consistent_clearAllFilters: "consistent d (clearAllFilters w)"
  by (simp add: consistent_def clearAllFilters_def getFilteredIndices_def VARIABLE_POSITIONS_def)

lemma consistent_loadHash:
  assumes "consistent d w" and "loadHash d w = Returns w'"
  shows "consistent d w'"
  using assms
  by (auto simp: loadHash_def consistent_def Let_def
        split: if_splits option.splits sum.splits prod.splits)

lemma consistent_location_hash [simp]:
  "consistent d (w\<lparr>location_hash := h\<rparr>) = consistent d w"
  by (simp add: consistent_def)

lemma consistent_step:
  assumes "consistent d w" and "apply_operation d op w = Returns w'"
  shows "consistent d w'"
proof (cases op)
  case (SetFilter pos aa)
  with assms(2) show ?thesis by (simp add: consistent_setFilter)
next
  case (ClearFilter pos)
  with assms(2) show ?thesis by (simp add: consistent_clearFilter)
next
  case ClearAllFilters
  with assms(2) show ?thesis by (auto simp: consistent_clearAllFilters)
next
  case (SetSort sb sd)
  with assms show ?thesis by (auto simp: consistent_def setSort_def)
next
  case (SetSearch query)
  with assms show ?thesis by (auto simp: consistent_def setSearch_def)
next
  case (SetHideStops hide)
  with assms show ?thesis by (auto simp: consistent_def setHideStops_def)
next
  case (SetColorScale scale)
  with assms show ?thesis by (auto simp: consistent_def setColorScale_def)
next
  case (Restore h)
  with assms(2) have "loadHash d (w\<lparr>location_hash := h\<rparr>) = Returns w'" by simp
  moreover from assms(1) have "consistent d (w\<lparr>location_hash := h\<rparr>)" by simp
  ultimately show ?thesis by (rule consistent_loadHash[rotated])
qed

lemma field_mutation_keeps:
  assumes "is_field_mutation op"
  shows "\<exists>w'. apply_operation d op w = Returns w' \<and> filters (state w') = filters (state w)
            \<and> filteredIndices (state w') = filteredIndices (state w)"
  using assms
  by (cases op) (simp_all add: is_field_mutation_def setSort_def setSearch_def setHideStops_def
      setColorScale_def)

lemma restore_world_K:
  "apply_operation (init raw4) (Restore ''#filters=16:D'') world_K = Returns world_KD"
  by (simp add: loadHash_def world_K_def world_KD_def initial_state_def
      URLSearchParams_def params_get_def form_decode_def parseInt_def is_space_def in_radix_def
      digit_value_def digits_value_def hex_value_def object_get_def
      getFilteredIndices_def VARIABLE_POSITIONS_def init_raw4 new_Set_def Set_add_def
      intersect_def Let_def)

section \<open>Fitness bounds of the index build\<close>

lemma bounds_ok_init_row:
  assumes "bounds_ok d"
  shows "bounds_ok (init_row i row d)"
proof (cases "Protein_Seq row")
  case None
  with assms show ?thesis by (simp add: init_row_def)
next
  case (Some s)
  show ?thesis
  proof (cases "s = [] \<or> Slope row = None")
    case True
    with assms Some show ?thesis by (auto simp: init_row_def)
  next
    case False
    then obtain sl where sl: "Slope row = Some sl" and ne: "s \<noteq> []" by auto
    let ?d = "init_row i row d"
    have "\<exists>r. sequences ?d = sequences d @ [r] \<and> slope r = sl"
      by (simp add: init_row_def Some sl ne Let_def)
    then obtain r where r: "sequences ?d = sequences d @ [r]" "slope r = sl" by blast
    have mx: "maxSlope ?d = max (maxSlope d) sl"
      by (simp add: init_row_def Some sl ne Let_def max_def)
    have mn: "minSlope ?d = (if lt_number sl (minSlope d) then Num sl else minSlope d)"
      by (simp add: init_row_def Some sl ne Let_def)
    have fin: "finite (slope ` set (sequences d))" by simp
    have "maxSlope ?d = Max (insert 0 (slope ` set (sequences ?d)))"
    proof -
      have "Max (insert 0 (slope ` set (sequences ?d)))
          = Max (insert sl (insert 0 (slope ` set (sequences d))))"
        by (simp add: r insert_commute)
      also have "\<dots> = max sl (Max (insert 0 (slope ` set (sequences d))))"
        by (rule Max_insert) simp_all
      finally show ?thesis using assms by (simp add: mx bounds_ok_def max.commute)
    qed
    moreover have "minSlope ?d = Num (Min (slope ` set (sequences ?d)))"
    proof (cases "sequences d = []")
      case True
      with assms show ?thesis by (simp add: mn r bounds_ok_def lt_number_def)
    next
      case False
      define A where "A = slope ` set (sequences d)"
      have A: "finite A" "A \<noteq> {}" using False by (simp_all add: A_def)
      have "slope ` set (sequences ?d) = insert sl A"
        by (simp add: r A_def)
      then have "Min (slope ` set (sequences ?d)) = min sl (Min A)"
        using A by simp
      moreover have "minSlope d = Num (Min A)"
        using assms False by (simp add: bounds_ok_def A_def)
      ultimately show ?thesis
        by (simp add: mn lt_number_def min_def)
    qed
    ultimately show ?thesis by (simp add: bounds_ok_def r)
  qed
qed

lemma bounds_ok_init_loop: "bounds_ok d \<Longrightarrow> bounds_ok (init_loop i rows d)"
  by (induction rows arbitrary: i d) (simp_all add: bounds_ok_init_row)

lemma bounds_ok_init: "bounds_ok (init raw)"
proof -
  have "bounds_ok fresh_store" by (simp add: bounds_ok_def fresh_store_def)
  then have "bounds_ok (init_loop 0 raw fresh_store)" by (rule bounds_ok_init_loop)
  then show ?thesis by (simp add: bounds_ok_def init_def Let_def)
qed

text \<open>
  C3, at the failing input: two retained rows with fitness \<open>-2\<close> and \<open>-1\<close>. The stored minimum
  is their minimum, the stored maximum is \<open>0\<close>, which is no row's fitness.
\<close>

theorem maxSlope_negative_input:
  "map slope (sequences (init raw_negative)) = [- 2, - 1]
   \<and> maxSlope (init raw_negative) = 0
   \<and> minSlope (init raw_negative) = Num (- 2)"
  by code_simp

section \<open>Conditional marginals, entropy and rows outside the canonical alphabet\<close>

lemma bucket_loop_sums:
  assumes "\<forall>j\<in>set ids. j < length (sequences d)"
  shows "bucket_loop d fi ids a =
     Inr \<lparr>acc_sum = acc_sum a
             + sum_list (map (\<lambda>j. slope (sequences d ! j)) (filter (\<lambda>j. \<not> filtered_out fi j) ids)),
          acc_sumSq = acc_sumSq a
             + sum_list (map (\<lambda>x. x * x)
                 (map (\<lambda>j. slope (sequences d ! j)) (filter (\<lambda>j. \<not> filtered_out fi j) ids))),
          acc_count = acc_count a + length (filter (\<lambda>j. \<not> filtered_out fi j) ids),
          acc_values = acc_values a
             @ map (\<lambda>j. slope (sequences d ! j)) (filter (\<lambda>j. \<not> filtered_out fi j) ids)\<rparr>"
  using assms
proof (induction ids arbitrary: a)
  case Nil
  then show ?case by simp
next
  case (Cons i ids)
  then have IH: "\<And>a. bucket_loop d fi ids a = Inr \<lparr>acc_sum = acc_sum a
             + sum_list (map (\<lambda>j. slope (sequences d ! j)) (filter (\<lambda>j. \<not> filtered_out fi j) ids)),
          acc_sumSq = acc_sumSq a
             + sum_list (map (\<lambda>x. x * x)
                 (map (\<lambda>j. slope (sequences d ! j)) (filter (\<lambda>j. \<not> filtered_out fi j) ids))),
          acc_count = acc_count a + length (filter (\<lambda>j. \<not> filtered_out fi j) ids),
          acc_values = acc_values a
             @ map (\<lambda>j. slope (sequences d ! j)) (filter (\<lambda>j. \<not> filtered_out fi j) ids)\<rparr>"
    by simp
  from Cons.prems have i: "i < length (sequences d)" by simp
  show ?case
    by (simp add: IH row_at_def i algebra_simps)
qed

lemma finish_marginal_of:
  "finish_marginal \<lparr>acc_sum = sum_list xs, acc_sumSq = sum_list (map (\<lambda>x. x * x) xs),
                    acc_count = length xs, acc_values = xs\<rparr> = marginal_of xs"
  by (simp add: finish_marginal_def marginal_of_def Let_def even_iff_mod_2_eq_zero)

lemma update_fresh: "k \<notin> fst ` set al \<Longrightarrow> AList.update k v al = al @ [(k, v)]"
  by (induction al) auto

lemma ids_with_bound: "j \<in> set (ids_with rs pos aa) \<Longrightarrow> j < length rs"
  by (simp add: ids_with_def)

lemma bucket_loop_entry:
  "bucket_loop d fi (ids_with (sequences d) pos aa)
      \<lparr>acc_sum = 0, acc_sumSq = 0, acc_count = 0, acc_values = []\<rparr>
   = Inr \<lparr>acc_sum = sum_list (restricted_fitness (sequences d) pos fi aa),
          acc_sumSq = sum_list (map (\<lambda>x. x * x) (restricted_fitness (sequences d) pos fi aa)),
          acc_count = length (restricted_fitness (sequences d) pos fi aa),
          acc_values = restricted_fitness (sequences d) pos fi aa\<rparr>"
  by (subst bucket_loop_sums)
     (simp_all add: ids_with_bound restricted_fitness_def restricted_ids_def)

lemma aa_loop_spec:
  assumes "\<forall>aa\<in>set aas. map_of b aa = Some (ids_with (sequences d) pos aa)"
    and "distinct aas" and "set aas \<inter> fst ` set results = {}"
  shows "aa_loop d (Some b) fi aas results
       = Inr (results @ List.map_filter (marginal_entry (sequences d) pos fi) aas)"
  using assms
proof (induction aas arbitrary: results)
  case Nil
  then show ?case by simp
next
  case (Cons aa aas)
  let ?xs = "restricted_fitness (sequences d) pos fi aa"
  from Cons.prems have b: "map_of b aa = Some (ids_with (sequences d) pos aa)"
    and rest: "\<forall>aa\<in>set aas. map_of b aa = Some (ids_with (sequences d) pos aa)"
    and dist: "distinct aas" and fresh: "aa \<notin> fst ` set results" and notin: "aa \<notin> set aas"
    and disj: "set aas \<inter> fst ` set results = {}"
    by auto
  show ?case
  proof (cases "?xs = []")
    case True
    then show ?thesis
      using Cons.IH[OF rest dist disj]
      by (simp add: b bucket_loop_entry marginal_entry_def)
  next
    case False
    have upd: "AList.update aa (marginal_of ?xs) results = results @ [(aa, marginal_of ?xs)]"
      using fresh by (rule update_fresh)
    have disj': "set aas \<inter> fst ` set (results @ [(aa, marginal_of ?xs)]) = {}"
      using disj notin by auto
    from False show ?thesis
      using Cons.IH[OF rest dist disj']
      by (simp add: b bucket_loop_entry marginal_entry_def finish_marginal_of upd)
  qed
qed

lemma map_filter_filter_None:
  "(\<And>x. x \<in> set xs \<Longrightarrow> \<not> P x \<Longrightarrow> f x = None) \<Longrightarrow>
   List.map_filter f (filter P xs) = List.map_filter f xs"
proof (induction xs)
  case Nil
  then show ?case by simp
next
  case (Cons a xs)
  then have IH: "List.map_filter f (filter P xs) = List.map_filter f xs" by simp
  show ?case
  proof (cases "P a")
    case True
    then show ?thesis by (simp add: IH split: option.split)
  next
    case False
    with Cons.prems have "f a = None" by simp
    with False show ?thesis by (simp add: IH)
  qed
qed

lemma distinct_AA_ORDER: "distinct AA_ORDER"
  by (simp add: AA_ORDER_def)

lemma computeConditionalMarginals_init:
  assumes "pos \<in> set VARIABLE_POSITIONS"
  shows "computeConditionalMarginals (init raw) pos fi
       = Inr (marginals_spec (sequences (init raw)) pos fi)"
proof -
  let ?rs = "sequences (init raw)"
  from aasAtPosition_init[OF assms, of raw] obtain b where
    b: "map_of (indexByPosition (init raw)) pos = Some b"
    and aas: "map_of (aasAtPosition (init raw)) pos = Some (present_aas b)"
    by blast
  from index_ok_init[of raw] assms b have bb: "\<And>aa. map_of b aa = bucket_of ?rs pos aa"
    by (auto simp: index_ok_def)
  have key: "aa \<in> fst ` set b \<longleftrightarrow> ids_with ?rs pos aa \<noteq> []" for aa
  proof -
    have "aa \<in> fst ` set b \<longleftrightarrow> map_of b aa \<noteq> None"
      by (simp add: map_of_eq_None_iff)
    then show ?thesis by (simp add: bb bucket_of_def)
  qed
  have "\<forall>aa\<in>set (present_aas b). map_of b aa = Some (ids_with ?rs pos aa)"
    using key by (auto simp: present_aas_def bb bucket_of_def)
  moreover have "distinct (present_aas b)"
    by (simp add: present_aas_def distinct_AA_ORDER)
  ultimately have "aa_loop (init raw) (Some b) fi (present_aas b) []
      = Inr ([] @ List.map_filter (marginal_entry ?rs pos fi) (present_aas b))"
    by (intro aa_loop_spec) simp_all
  moreover have "List.map_filter (marginal_entry ?rs pos fi) (present_aas b)
      = List.map_filter (marginal_entry ?rs pos fi) AA_ORDER"
    unfolding present_aas_def
    by (rule map_filter_filter_None)
       (simp add: key marginal_entry_def restricted_fitness_def restricted_ids_def)
  ultimately show ?thesis
    by (simp add: computeConditionalMarginals_def aas b marginals_spec_def)
qed




lemma sum_count_map_filter:
  "sum_list (map (\<lambda>(aa, m). count_m m) (List.map_filter (marginal_entry rs pos fi) ks))
     = sum_list (map (\<lambda>k. length (restricted_ids rs pos fi k)) ks)"
  by (induction ks)
     (simp_all add: marginal_entry_def restricted_fitness_def marginal_of_def Let_def)

lemma sum_length_by_key:
  "distinct ks \<Longrightarrow>
   sum_list (map (\<lambda>k. length (filter (\<lambda>j. P j \<and> f j = k) xs)) ks)
     = length (filter (\<lambda>j. P j \<and> f j \<in> set ks) xs)"
proof (induction ks)
  case Nil
  then show ?case by simp
next
  case (Cons k ks)
  then have IH: "sum_list (map (\<lambda>k. length (filter (\<lambda>j. P j \<and> f j = k) xs)) ks)
     = length (filter (\<lambda>j. P j \<and> f j \<in> set ks) xs)" and k: "k \<notin> set ks"
    by simp_all
  have "length (filter (\<lambda>j. P j \<and> f j \<in> set (k # ks)) xs)
      = length (filter (\<lambda>j. P j \<and> f j = k) xs) + length (filter (\<lambda>j. P j \<and> f j \<in> set ks) xs)"
    using k by (induction xs) auto
  then show ?case by (simp add: IH)
qed

lemma restricted_ids_alt:
  "restricted_ids rs pos fi aa
     = filter (\<lambda>j. \<not> filtered_out fi j \<and> index_key (seq (rs ! j)) pos = aa) [0..<length rs]"
  by (simp add: restricted_ids_def ids_with_def conj_commute)

lemma sum_counts_marginals_spec:
  "sum_list (map (\<lambda>(aa, m). count_m m) (marginals_spec rs pos fi))
     = length (filter (\<lambda>j. \<not> filtered_out fi j \<and> index_key (seq (rs ! j)) pos \<in> set AA_ORDER)
                [0..<length rs])"
  unfolding marginals_spec_def sum_count_map_filter restricted_ids_alt
  by (rule sum_length_by_key) (rule distinct_AA_ORDER)

lemma positive_counts_marginals_spec:
  "(aa, m) \<in> set (marginals_spec rs pos fi) \<Longrightarrow> count_m m > 0"
  by (auto simp: marginals_spec_def map_filter_def marginal_entry_def marginal_of_def Let_def
      split: if_splits)

lemma length_filter_member:
  assumes "distinct S" and "\<forall>j\<in>set S. j < n"
  shows "length (filter (\<lambda>j. j \<in> set S) [0..<n]) = length S"
proof -
  have "length (filter (\<lambda>j. j \<in> set S) [0..<n]) = card ({j. j \<in> set S} \<inter> set [0..<n])"
    by (rule distinct_length_filter) simp
  also have "{j. j \<in> set S} \<inter> set [0..<n] = set S"
    using assms(2) by auto
  finally show ?thesis using assms(1) by (simp add: distinct_card)
qed








lemma count_sum_init:
  assumes "pos \<in> set VARIABLE_POSITIONS"
  shows "count_sum (computeConditionalMarginals (init raw) pos fi)
       = Some (length (filter (\<lambda>j. \<not> filtered_out fi j \<and> canonical_at (sequences (init raw)) pos j)
                         [0..<length (sequences (init raw))]))"
  by (simp add: count_sum_def computeConditionalMarginals_init[OF assms]
      sum_counts_marginals_spec canonical_at_def)

lemma count_sum_all_canonical:
  assumes "pos \<in> set VARIABLE_POSITIONS"
    and "\<forall>j<length (sequences (init raw)). canonical_at (sequences (init raw)) pos j"
  shows "count_sum (computeConditionalMarginals (init raw) pos None) = Some (totalCount (init raw))"
    and "distinct S \<Longrightarrow> \<forall>j\<in>set S. j < length (sequences (init raw)) \<Longrightarrow>
         count_sum (computeConditionalMarginals (init raw) pos (Some S)) = Some (length S)"
proof -
  let ?rs = "sequences (init raw)"
  have "filter (\<lambda>j. \<not> filtered_out None j \<and> canonical_at ?rs pos j) [0..<length ?rs]
      = [0..<length ?rs]"
    using assms(2) by (simp add: filtered_out_def)
  then show "count_sum (computeConditionalMarginals (init raw) pos None)
      = Some (totalCount (init raw))"
    by (simp add: count_sum_init[OF assms(1)] totalCount_init)
  assume S: "distinct S" "\<forall>j\<in>set S. j < length ?rs"
  have "filter (\<lambda>j. \<not> filtered_out (Some S) j \<and> canonical_at ?rs pos j) [0..<length ?rs]
      = filter (\<lambda>j. j \<in> set S) [0..<length ?rs]"
    using assms(2) by (auto simp: filtered_out_def intro: filter_cong)
  then show "count_sum (computeConditionalMarginals (init raw) pos (Some S)) = Some (length S)"
    by (simp add: count_sum_init[OF assms(1)] length_filter_member[OF S])
qed

text \<open>
  C4 (as amended). For a variable position and any matching set, the result holds no entry
  with count zero, and its counts add up to the number of rows that the matching set keeps
  and that carry a canonical value at the position. When every row carries a canonical value
  there, the sum is the total row count for Unconstrained and the size of the set for a set
  of row identifiers.
\<close>

theorem marginal_counts_sum:
  assumes "pos \<in> set VARIABLE_POSITIONS"
  shows "(\<exists>ms. computeConditionalMarginals (init raw) pos fi = Inr ms
            \<and> (\<forall>(aa, m)\<in>set ms. count_m m > 0))
       \<and> count_sum (computeConditionalMarginals (init raw) pos fi)
           = Some (length (filter (\<lambda>j. \<not> filtered_out fi j
                                       \<and> canonical_at (sequences (init raw)) pos j)
                             [0..<length (sequences (init raw))]))
       \<and> ((\<forall>j<length (sequences (init raw)). canonical_at (sequences (init raw)) pos j) \<longrightarrow>
            count_sum (computeConditionalMarginals (init raw) pos None)
              = Some (totalCount (init raw))
            \<and> (\<forall>S. distinct S \<and> (\<forall>j\<in>set S. j < length (sequences (init raw))) \<longrightarrow>
                  count_sum (computeConditionalMarginals (init raw) pos (Some S))
                    = Some (length S)))"
  using count_sum_init[OF assms] count_sum_all_canonical[OF assms]
    positive_counts_marginals_spec
  by (auto simp: computeConditionalMarginals_init[OF assms])

lemma totalCount_raw_odd: "totalCount (init raw_odd) = 3"
  by code_simp

lemma keys_raw_odd:
  "map (\<lambda>j. index_key (seq (sequences (init raw_odd) ! j)) 9) [0..<length (sequences (init raw_odd))]
     = [''X'', ''undefined'', ''C'']"
  by code_simp

lemma count_sum_raw_odd: "count_sum (computeConditionalMarginals (init raw_odd) 9 None) = Some 1"
proof -
  have "filter (\<lambda>j. \<not> filtered_out None j \<and> canonical_at (sequences (init raw_odd)) 9 j)
          [0..<length (sequences (init raw_odd))] = [2]"
    by code_simp
  then show ?thesis
    by (simp add: count_sum_init VARIABLE_POSITIONS_def)
qed

text \<open>
  C4, counterexample to the claim as stated: with a row that has \<open>X\<close> at position 9 and a row
  whose sequence is too short, the counts at position 9 add up to 1 for Unconstrained, and
  the total row count is 3.
\<close>

theorem marginal_counts_sum_counterexample:
  "count_sum (computeConditionalMarginals (init raw_odd) 9 None) = Some 1
   \<and> totalCount (init raw_odd) = 3"
  using count_sum_raw_odd totalCount_raw_odd by simp

lemma keys_marginals_spec:
  "map fst (marginals_spec rs pos fi) = filter (\<lambda>aa. restricted_ids rs pos fi aa \<noteq> []) AA_ORDER"
proof -
  have "map fst (List.map_filter (marginal_entry rs pos fi) ks)
      = filter (\<lambda>aa. restricted_ids rs pos fi aa \<noteq> []) ks" for ks
    by (induction ks) (simp_all add: marginal_entry_def restricted_fitness_def)
  then show ?thesis by (simp add: marginals_spec_def)
qed

lemma all_below_list_all: "(\<forall>j<n. P j) \<longleftrightarrow> list_all P [0..<n]"
  by (auto simp: list_all_iff)

lemma all_canonical_raw4:
  "\<forall>j<length (sequences (init raw4)). canonical_at (sequences (init raw4)) 9 j"
  unfolding all_below_list_all by code_simp

text \<open>C4, witness: the four canonical rows, Unconstrained and the set of rows 2 and 3.\<close>

theorem marginal_counts_sum_witness:
  "(9::nat) \<in> set VARIABLE_POSITIONS
   \<and> list_all (canonical_at (sequences (init raw4)) 9) [0..<length (sequences (init raw4))]
   \<and> distinct [2, 3::nat] \<and> list_all (\<lambda>j. j < length (sequences (init raw4))) [2, 3]
   \<and> count_sum (computeConditionalMarginals (init raw4) 9 None) = Some 4
   \<and> totalCount (init raw4) = 4
   \<and> count_sum (computeConditionalMarginals (init raw4) 9 (Some [2, 3])) = Some 2
   \<and> (\<exists>ms. computeConditionalMarginals (init raw4) 9 (Some [2, 3]) = Inr ms
          \<and> map fst ms = [''K''])"
proof -
  have a: "(9::nat) \<in> set VARIABLE_POSITIONS" by (simp add: VARIABLE_POSITIONS_def)
  have n: "length (sequences (init raw4)) = 4" "totalCount (init raw4) = 4"
    by (simp_all add: init_raw4)
  have d: "distinct [2, 3::nat] \<and> (\<forall>j\<in>set [2, 3::nat]. j < length (sequences (init raw4)))"
    by (simp add: n)
  have k: "map fst (marginals_spec (sequences (init raw4)) 9 (Some [2, 3])) = [''K'']"
    unfolding keys_marginals_spec by code_simp
  from marginal_counts_sum[OF a, of raw4 "Some [2, 3]"] all_canonical_raw4 d
  have "count_sum (computeConditionalMarginals (init raw4) 9 None) = Some (totalCount (init raw4))"
    and "count_sum (computeConditionalMarginals (init raw4) 9 (Some [2, 3])) = Some (length [2, 3::nat])"
    by blast+
  moreover have "list_all (canonical_at (sequences (init raw4)) 9)
      [0..<length (sequences (init raw4))]"
    using all_canonical_raw4 by (simp only: all_below_list_all)
  moreover have "list_all (\<lambda>j. j < length (sequences (init raw4))) [2, 3]"
    by (simp add: n)
  ultimately show ?thesis
    using a n k by (simp add: computeConditionalMarginals_init[OF a])
qed

















lemma in_matching_set:
  assumes "j < length (sequences (init raw))" and "plain_filters f"
    and "row_matches (sequences (init raw)) f VARIABLE_POSITIONS j"
  shows "getFilteredIndices (init raw) f = Inr None
       \<or> (\<exists>S. getFilteredIndices (init raw) f = Inr (Some S) \<and> j \<in> set S)"
  using assms(1,3) by (simp add: getFilteredIndices_init[OF assms(2)] resolve_spec_def)













section \<open>Persisting and restoring the filters\<close>

lemmas eval_platform =
  URLSearchParams_def params_get_def form_decode_def parseInt_def is_space_def in_radix_def
  digit_value_def digits_value_def hex_value_def decimal.simps hex_char_def
  encodeURIComponent_def unreserved_def

lemma char_of_37: "char_of (37::nat) = CHR ''%''"
  by code_simp

lemma char_of_44: "char_of (44::nat) = CHR '',''"
  by code_simp

lemma percent_reached_by_url:
  "loadHash (init raw4) \<lparr>state = initial_state, location_hash = ''#filters=9:%2525''\<rparr>
     = Returns (world_percent\<lparr>location_hash := ''#filters=9:%2525''\<rparr>)"
  by (simp add: loadHash_def world_percent_def initial_state_def eval_platform char_of_37
      getFilteredIndices_def VARIABLE_POSITIONS_def init_raw4 eval_object Let_def)

lemma percent_reached_by_setFilter:
  "setFilter (init raw4) 9 ''%'' \<lparr>state = initial_state, location_hash = []\<rparr>
     = Returns world_percent"
  by (simp add: setFilter_def world_percent_def initial_state_def notify_def saveHash_def
      eval_platform getFilteredIndices_def VARIABLE_POSITIONS_def init_raw4 eval_object Let_def)

lemma saved_percent: "location_hash (saveHash world_percent) = ''#filters=9:%25''"
  by (simp add: saveHash_def world_percent_def initial_state_def eval_platform
      VARIABLE_POSITIONS_def Let_def)

lemma restore_percent:
  "restore_saved (init raw4) world_percent
     = Throws URIError \<lparr>state = initial_state, location_hash = ''#filters=9:%25''\<rparr>"
  unfolding restore_saved_def saved_percent
  by (simp add: loadHash_def initial_state_def eval_platform char_of_37 VARIABLE_POSITIONS_def
      Let_def)

lemma comma_reached_by_setFilter:
  "setFilter (init raw4) 9 '','' \<lparr>state = initial_state, location_hash = []\<rparr>
     = Returns world_comma"
  by (simp add: setFilter_def world_comma_def initial_state_def notify_def saveHash_def
      eval_platform getFilteredIndices_def VARIABLE_POSITIONS_def init_raw4 eval_object Let_def)

lemma saved_comma: "location_hash (saveHash world_comma) = ''#filters=9:%2C''"
  by (simp add: saveHash_def world_comma_def initial_state_def eval_platform
      VARIABLE_POSITIONS_def Let_def)

lemma restore_comma: "matching_set (restore_saved (init raw4) world_comma) = Some None"
  unfolding restore_saved_def saved_comma
  by (simp add: matching_set_def loadHash_def initial_state_def eval_platform char_of_44
      getFilteredIndices_def VARIABLE_POSITIONS_def Let_def)

lemma empty_value_reached_by_setFilter:
  "setFilter (init raw4) 9 [] \<lparr>state = initial_state, location_hash = []\<rparr>
     = Returns world_empty_value"
  by (simp add: setFilter_def world_empty_value_def initial_state_def notify_def saveHash_def
      eval_platform getFilteredIndices_def VARIABLE_POSITIONS_def init_raw4 eval_object Let_def)

lemma saved_empty_value: "location_hash (saveHash world_empty_value) = ''#filters=9:''"
  by (simp add: saveHash_def world_empty_value_def initial_state_def eval_platform
      VARIABLE_POSITIONS_def Let_def)

lemma restore_empty_value: "matching_set (restore_saved (init raw4) world_empty_value) = Some None"
  unfolding restore_saved_def saved_empty_value
  by (simp add: matching_set_def loadHash_def initial_state_def eval_platform
      getFilteredIndices_def VARIABLE_POSITIONS_def Let_def)

lemma restore_K: "restore_saved (init raw4) world_K = Returns world_K"
  by (simp add: restore_saved_def saveHash_def loadHash_def world_K_def initial_state_def
      eval_platform getFilteredIndices_def VARIABLE_POSITIONS_def init_raw4 new_Set_def
      Set_add_def eval_object Let_def)

text \<open>
  C5, at the failing input. The state that selects \<open>%\<close> at position 9 is reached by
  \<^verbatim>\<open>setFilter(9, '%')\<close> (and by opening \<^verbatim>\<open>#filters=9:%2525\<close>); its matching set is the empty
  constrained set and its persisted form is \<^verbatim>\<open>#filters=9:%25\<close>. Restoring that form throws a
  URIError: \<^verbatim>\<open>URLSearchParams\<close> has already decoded \<^verbatim>\<open>%25\<close> when \<^verbatim>\<open>decodeURIComponent\<close> is
  applied. For the value \<open>,\<close> the restore returns, with the matching set Unconstrained instead
  of empty: the decoded comma is taken for a separator.
\<close>

theorem round_trip_percent:
  "setFilter (init raw4) 9 ''%'' \<lparr>state = initial_state, location_hash = []\<rparr>
     = Returns world_percent
   \<and> filteredIndices (state world_percent) = Some []
   \<and> location_hash (saveHash world_percent) = ''#filters=9:%25''
   \<and> restore_saved (init raw4) world_percent
       = Throws URIError \<lparr>state = initial_state, location_hash = ''#filters=9:%25''\<rparr>
   \<and> filteredIndices (state world_comma) = Some []
   \<and> location_hash (saveHash world_comma) = ''#filters=9:%2C''
   \<and> matching_set (restore_saved (init raw4) world_comma) = Some None"
  using percent_reached_by_setFilter saved_percent restore_percent saved_comma restore_comma
  by (simp add: world_percent_def world_comma_def)

subsection \<open>The matching set after an exception and after a change of the fragment\<close>

lemma half_restored:
  "apply_operation (init raw4) (Restore ''#filters=9:K,12:%'')
       \<lparr>state = initial_state, location_hash = []\<rparr>
     = Throws URIError world_half_restored"
  by (simp add: loadHash_def world_half_restored_def initial_state_def eval_platform char_of_37
      VARIABLE_POSITIONS_def Let_def)

lemma resolve_K:
  "getFilteredIndices (init raw4) ((\<lambda>_. None)(9 := Some ''K'')) = Inr (Some [2, 3])"
  by (simp add: getFilteredIndices_def VARIABLE_POSITIONS_def init_raw4 new_Set_def Set_add_def
      eval_object)

lemma constructor_thrown:
  "apply_operation (init raw4) (SetFilter 9 ''constructor'')
       \<lparr>state = initial_state, location_hash = []\<rparr>
     = Throws TypeError world_constructor"
  by (simp add: setFilter_def world_constructor_def initial_state_def getFilteredIndices_def
      VARIABLE_POSITIONS_def init_raw4 eval_object Let_def)

lemma constructor_restored:
  "apply_operation (init raw4) (Restore ''#filters=9:constructor'')
       \<lparr>state = initial_state, location_hash = []\<rparr>
     = Throws TypeError (world_constructor\<lparr>location_hash := ''#filters=9:constructor''\<rparr>)"
  by (simp add: loadHash_def world_constructor_def initial_state_def eval_platform
      getFilteredIndices_def VARIABLE_POSITIONS_def init_raw4 eval_object Let_def)

lemma fragment_removed:
  "hashchange (init raw4) (world_K\<lparr>location_hash := []\<rparr>) = Returns world_fragment_removed"
  by (simp add: hashchange_def loadHash_def world_K_def world_fragment_removed_def
      initial_state_def notify_def saveHash_def VARIABLE_POSITIONS_def fun_upd_idem Let_def)

text \<open>
  C9, at the failing inputs, on the four rows. Restoring
  \<^verbatim>\<open>#filters=9:K,12:%\<close> in the initial state assigns \<open>K\<close> to position 9 and then throws a
  URIError at \<^verbatim>\<open>decodeURIComponent('%')\<close>: the stored filter map selects \<open>K\<close> at 9, whose
  resolution is the rows 2 and 3, and the stored matching set is still Unconstrained.
  \<^verbatim>\<open>setFilter(9, 'constructor')\<close> stores the filter and then throws the TypeError of
  \<^verbatim>\<open>getFilteredIndices\<close>: the stored filter map has no resolution. And when the fragment of the
  state that selects \<open>K\<close> at 9 is removed, the \<^verbatim>\<open>hashchange\<close> listener clears the filters and
  \<^verbatim>\<open>loadHash\<close> returns at once, so that the stored matching set stays the rows 2 and 3 while
  the resolution of the stored filter map is Unconstrained.
\<close>

theorem coordinator_stale_matching_set:
  "apply_operation (init raw4) (Restore ''#filters=9:K,12:%'')
       \<lparr>state = initial_state, location_hash = []\<rparr>
     = Throws URIError world_half_restored
   \<and> filters (state world_half_restored) = (\<lambda>_. None)(9 := Some ''K'')
   \<and> filteredIndices (state world_half_restored) = None
   \<and> getFilteredIndices (init raw4) (filters (state world_half_restored)) = Inr (Some [2, 3])
   \<and> \<not> consistent (init raw4) world_half_restored
   \<and> apply_operation (init raw4) (SetFilter 9 ''constructor'')
         \<lparr>state = initial_state, location_hash = []\<rparr>
       = Throws TypeError world_constructor
   \<and> filters (state world_constructor) = (\<lambda>_. None)(9 := Some ''constructor'')
   \<and> getFilteredIndices (init raw4) (filters (state world_constructor)) = Inl TypeError
   \<and> \<not> consistent (init raw4) world_constructor
   \<and> consistent (init raw4) world_K
   \<and> hashchange (init raw4) (world_K\<lparr>location_hash := []\<rparr>) = Returns world_fragment_removed
   \<and> filters (state world_fragment_removed) = (\<lambda>_. None)
   \<and> filteredIndices (state world_fragment_removed) = Some [2, 3]
   \<and> getFilteredIndices (init raw4) (filters (state world_fragment_removed)) = Inr None
   \<and> \<not> consistent (init raw4) world_fragment_removed"
proof -
  have k: "consistent (init raw4) world_K"
    using world_K_reached by (rule consistent_setFilter)
  have c: "getFilteredIndices (init raw4) ((\<lambda>_. None)(9 := Some ''constructor'')) = Inl TypeError"
    by (simp add: getFilteredIndices_def VARIABLE_POSITIONS_def init_raw4 eval_object)
  have n: "getFilteredIndices (init raw4) (\<lambda>_. None) = Inr None"
    by (simp add: getFilteredIndices_def VARIABLE_POSITIONS_def)
  show ?thesis
    using half_restored constructor_thrown fragment_removed k resolve_K c n
    by (simp add: consistent_def world_half_restored_def world_constructor_def
        world_fragment_removed_def initial_state_def)
qed

subsection \<open>Values that survive the round trip\<close>

lemma encodeURIComponent_unreserved: "\<forall>c\<in>set v. unreserved c \<Longrightarrow> encodeURIComponent v = v"
  by (induction v) (simp_all add: encodeURIComponent_def)

lemma reserved_chars:
  "\<not> unreserved CHR '',''" "\<not> unreserved CHR ''&''" "\<not> unreserved CHR ''%''"
  "\<not> unreserved CHR ''+''" "\<not> unreserved CHR ''=''" "\<not> unreserved CHR '':''"
  "\<not> unreserved CHR ''?''"
  by (simp_all add: unreserved_def)

lemma split_on_absent: "sep \<notin> set s \<Longrightarrow> split_on sep s = [s]"
  by (induction s) auto

lemma split_on_first: "sep \<notin> set a \<Longrightarrow> split_on sep (a @ sep # b) = a # split_on sep b"
  by (induction a) auto

lemma percent_decode_plain: "CHR ''%'' \<notin> set s \<Longrightarrow> percent_decode s = s"
  by (induction s rule: percent_decode.induct) auto

lemma decodeURIComponent_plain: "CHR ''%'' \<notin> set s \<Longrightarrow> decodeURIComponent s = Inr s"
  by (induction s) auto

lemma form_decode_plain:
  "CHR ''%'' \<notin> set s \<Longrightarrow> CHR ''+'' \<notin> set s \<Longrightarrow> form_decode s = s"
proof -
  assume a: "CHR ''%'' \<notin> set s" and b: "CHR ''+'' \<notin> set s"
  from b have "map (\<lambda>c. if c = CHR ''+'' then CHR '' '' else c) s = s"
    by (induction s) auto
  with a show ?thesis by (simp add: form_decode_def percent_decode_plain)
qed

lemma split_join:
  "parts \<noteq> [] \<Longrightarrow> \<forall>p\<in>set parts. sep \<notin> set p \<Longrightarrow> split_on sep (join [sep] parts) = parts"
proof (induction "[sep]" parts rule: join.induct)
  case 1
  then show ?case by simp
next
  case (2 p)
  then show ?case by (simp add: split_on_absent)
next
  case (3 p q ps)
  then show ?case by (simp add: split_on_first)
qed


lemma set_join: "set (join sep parts) \<subseteq> set sep \<union> (\<Union>p\<in>set parts. set p)"
  by (induction sep parts rule: join.induct) auto

lemma URLSearchParams_filters:
  assumes "CHR ''&'' \<notin> set t" and "CHR ''%'' \<notin> set t" and "CHR ''+'' \<notin> set t"
  shows "params_get (URLSearchParams (''filters='' @ t)) ''filters'' = Some t"
proof -
  have "split_on CHR ''&'' (''filters='' @ t) = [''filters='' @ t]"
    using assms(1) by (intro split_on_absent) simp
  moreover have "form_decode ''filters'' = ''filters''"
    by (simp add: form_decode_def)
  ultimately show ?thesis
    using assms(2,3) by (simp add: URLSearchParams_def params_get_def form_decode_plain)
qed

lemma decimal_positions:
  "decimal 9 = ''9''" "decimal 12 = ''12''" "decimal 13 = ''13''" "decimal 16 = ''16''"
  by (simp_all add: decimal.simps hex_char_def)

lemma parseInt_positions:
  "parseInt ''9'' = Some 9" "parseInt ''12'' = Some 12" "parseInt ''13'' = Some 13"
  "parseInt ''16'' = Some 16"
  by (simp_all add: parseInt_def is_space_def in_radix_def digit_value_def digits_value_def)

lemma position_cases:
  "pos \<in> set VARIABLE_POSITIONS \<Longrightarrow> pos = 9 \<or> pos = 12 \<or> pos = 13 \<or> pos = 16"
  by (simp add: VARIABLE_POSITIONS_def)

lemma decimal_position:
  assumes "pos \<in> set VARIABLE_POSITIONS"
  shows "parseInt (decimal pos) = Some (int pos)"
    and "set (decimal pos) \<subseteq> set ''0123456789''"
  using position_cases[OF assms]
  by (auto simp: decimal_positions parseInt_positions)

lemma safe_value_chars:
  assumes "safe_value v"
  shows "v \<noteq> []" and "CHR '','' \<notin> set v" and "CHR ''&'' \<notin> set v" and "CHR ''%'' \<notin> set v"
    and "CHR ''+'' \<notin> set v" and "CHR '':'' \<notin> set v" and "encodeURIComponent v = v"
  using assms reserved_chars
  by (auto simp: safe_value_def encodeURIComponent_unreserved)

lemma part_chars:
  assumes "pos \<in> set VARIABLE_POSITIONS" and "safe_value v"
  shows "CHR '','' \<notin> set (decimal pos @ '':'' @ v)"
    and "CHR ''&'' \<notin> set (decimal pos @ '':'' @ v)"
    and "CHR ''%'' \<notin> set (decimal pos @ '':'' @ v)"
    and "CHR ''+'' \<notin> set (decimal pos @ '':'' @ v)"
  using decimal_position(2)[OF assms(1)] safe_value_chars[OF assms(2)]
  by auto

lemma restore_one:
  assumes "pos \<in> set VARIABLE_POSITIONS" and "safe_value v"
  shows "restore_pairs f0 ((decimal pos @ '':'' @ v) # pairs)
       = restore_pairs (f0(pos := Some v)) pairs"
proof -
  have "CHR '':'' \<notin> set (decimal pos)"
    using decimal_position(2)[OF assms(1)] by auto
  then have "split_on CHR '':'' (decimal pos @ CHR '':'' # v) = [decimal pos, v]"
    using safe_value_chars(6)[OF assms(2)] by (simp add: split_on_first split_on_absent)
  moreover have "int pos \<in> set (map int VARIABLE_POSITIONS)"
    using assms(1) by simp
  ultimately show ?thesis
    using safe_value_chars(1,4)[OF assms(2)] decimal_position(1)[OF assms(1)]
    by (simp add: decodeURIComponent_plain del: set_map)
qed

lemma restore_saved_parts:
  assumes "set ps \<subseteq> set VARIABLE_POSITIONS"
    and "\<forall>pos\<in>set ps. \<forall>v. f pos = Some v \<longrightarrow> safe_value v"
  shows "restore_pairs f0 (List.map_filter (saved_part f) ps)
       = (\<lambda>pos. if pos \<in> set ps \<and> f pos \<noteq> None then f pos else f0 pos, None)"
  using assms
proof (induction ps arbitrary: f0)
  case Nil
  then show ?case by simp
next
  case (Cons p ps)
  then have sub: "set ps \<subseteq> set VARIABLE_POSITIONS"
    and safe: "\<forall>pos\<in>set ps. \<forall>v. f pos = Some v \<longrightarrow> safe_value v"
    and p: "p \<in> set VARIABLE_POSITIONS"
    by auto
  show ?case
  proof (cases "f p")
    case None
    then have "List.map_filter (saved_part f) (p # ps) = List.map_filter (saved_part f) ps"
      by (simp add: saved_part_def)
    moreover have "(\<lambda>pos. if pos \<in> set (p # ps) \<and> f pos \<noteq> None then f pos else f0 pos)
        = (\<lambda>pos. if pos \<in> set ps \<and> f pos \<noteq> None then f pos else f0 pos)"
      using None by (intro ext) auto
    ultimately show ?thesis using Cons.IH[OF sub safe, of f0] by simp
  next
    case (Some v)
    with Cons.prems have v: "safe_value v" by simp
    have parts: "List.map_filter (saved_part f) (p # ps)
        = (decimal p @ '':'' @ v) # List.map_filter (saved_part f) ps"
      using Some v by (simp add: saved_part_def safe_value_chars(7))
    have upd: "(\<lambda>pos. if pos \<in> set ps \<and> f pos \<noteq> None then f pos else (f0(p := Some v)) pos)
        = (\<lambda>pos. if pos \<in> set (p # ps) \<and> f pos \<noteq> None then f pos else f0 pos)"
      using Some by (intro ext) auto
    have "restore_pairs f0 (List.map_filter (saved_part f) (p # ps))
        = restore_pairs f0 ((decimal p @ '':'' @ v) # List.map_filter (saved_part f) ps)"
      by (simp only: parts)
    also have "\<dots> = restore_pairs (f0(p := Some v)) (List.map_filter (saved_part f) ps)"
      using p v by (rule restore_one)
    also have "\<dots> = (\<lambda>pos. if pos \<in> set ps \<and> f pos \<noteq> None then f pos
                          else (f0(p := Some v)) pos, None)"
      by (rule Cons.IH[OF sub safe])
    finally show ?thesis by (simp only: upd)
  qed
qed


lemma join_nonempty: "parts \<noteq> [] \<Longrightarrow> \<forall>p\<in>set parts. p \<noteq> [] \<Longrightarrow> join sep parts \<noteq> []"
  by (induction sep parts rule: join.induct) auto

lemma saved_parts_shape:
  assumes "part \<in> set (List.map_filter (saved_part f) ps)"
  shows "\<exists>pos\<in>set ps. \<exists>v. f pos = Some v \<and> part = decimal pos @ '':'' @ encodeURIComponent v"
  using assms
proof (induction ps)
  case Nil
  then show ?case by simp
next
  case (Cons p ps)
  show ?case
  proof (cases "f p")
    case None
    with Cons show ?thesis by (auto simp: saved_part_def)
  next
    case (Some v)
    with Cons show ?thesis by (auto simp: saved_part_def)
  qed
qed

lemma resolve_spec_cong:
  "(\<And>pos. pos \<in> set ps \<Longrightarrow> f pos = g pos) \<Longrightarrow> resolve_spec rs f ps = resolve_spec rs g ps"
  by (simp add: resolve_spec_def row_matches_def cong: filter_cong)

lemma saveHash_parts:
  "location_hash (saveHash w) =
     (let t = join '','' (List.map_filter (saved_part (filters (state w))) VARIABLE_POSITIONS)
      in if t \<noteq> [] then ''#filters='' @ t else [])"
proof -
  have "saved_part (filters (state w)) =
      (\<lambda>pos. case filters (state w) pos of None \<Rightarrow> None
              | Some v \<Rightarrow> Some (decimal pos @ '':'' @ encodeURIComponent v))"
    by (rule ext) (simp add: saved_part_def)
  then show ?thesis by (simp add: saveHash_def Let_def)
qed

text \<open>
  Where the round trip does hold: when every selected value is non-empty, made of characters
  that \<^verbatim>\<open>encodeURIComponent\<close> keeps, and not the name of an inherited property (all canonical
  symbols are such values), restoring the persisted form in a fresh session yields the same
  selections and the matching set of the original filter map.
\<close>

lemma round_trip_safe_values:
  assumes safe: "\<forall>pos\<in>set VARIABLE_POSITIONS. \<forall>v. filters (state w) pos = Some v \<longrightarrow> safe_value v"
    and plain: "plain_filters (filters (state w))"
  shows "\<exists>w'. restore_saved (init raw) w = Returns w'
            \<and> (\<forall>pos\<in>set VARIABLE_POSITIONS. filters (state w') pos = filters (state w) pos)
            \<and> filteredIndices (state w')
                = resolve_spec (sequences (init raw)) (filters (state w)) VARIABLE_POSITIONS"
proof -
  define f where "f = filters (state w)"
  define parts where "parts = List.map_filter (saved_part f) VARIABLE_POSITIONS"
  define t where "t = join '','' parts"
  have shape: "\<exists>pos\<in>set VARIABLE_POSITIONS. \<exists>v. f pos = Some v \<and> safe_value v
                 \<and> part = decimal pos @ '':'' @ v" if "part \<in> set parts" for part
  proof -
    from saved_parts_shape[OF that[unfolded parts_def]] obtain pos v where
      pv: "pos \<in> set VARIABLE_POSITIONS" "f pos = Some v"
        "part = decimal pos @ '':'' @ encodeURIComponent v" by blast
    with safe have "safe_value v" by (simp add: f_def)
    with pv show ?thesis by (auto simp: safe_value_chars(7))
  qed
  have hash: "location_hash (saveHash w) = (if t \<noteq> [] then ''#filters='' @ t else [])"
    by (simp add: saveHash_parts t_def parts_def f_def Let_def)
  show ?thesis
  proof (cases "parts = []")
    case True
    then have none: "\<And>pos. pos \<in> set VARIABLE_POSITIONS \<Longrightarrow> f pos = None"
      by (auto simp: parts_def map_filter_def saved_part_def filter_empty_conv split: option.splits)
    have "t = []" using True by (simp add: t_def)
    then have "restore_saved (init raw) w
        = Returns \<lparr>state = initial_state, location_hash = []\<rparr>"
      by (simp add: restore_saved_def hash loadHash_def)
    moreover have "resolve_spec (sequences (init raw)) f VARIABLE_POSITIONS = None"
      using none by (simp add: resolve_spec_def)
    ultimately show ?thesis
      using none by (simp add: initial_state_def f_def)
  next
    case False
    have nonempty: "\<forall>part\<in>set parts. part \<noteq> []"
      using shape by auto
    have chars: "CHR '','' \<notin> set part \<and> CHR ''&'' \<notin> set part \<and> CHR ''%'' \<notin> set part
                 \<and> CHR ''+'' \<notin> set part" if "part \<in> set parts" for part
    proof -
      from shape[OF that] obtain pos v where
        pv: "pos \<in> set VARIABLE_POSITIONS" "f pos = Some v" "safe_value v"
          "part = decimal pos @ '':'' @ v" by blast
      show ?thesis
        unfolding pv(4) using part_chars[OF pv(1,3)] by blast
    qed
    have t: "t \<noteq> []"
      unfolding t_def using False nonempty by (rule join_nonempty)
    have tchars: "CHR ''&'' \<notin> set t" "CHR ''%'' \<notin> set t" "CHR ''+'' \<notin> set t"
      using set_join[of "'',''" parts] chars by (auto simp: t_def)
    have get: "params_get (URLSearchParams (''filters='' @ t)) ''filters'' = Some t"
      using tchars by (rule URLSearchParams_filters)
    have split: "split_on CHR '','' t = parts"
      unfolding t_def using False chars by (intro split_join) auto
    define f' where "f' = (\<lambda>pos. if pos \<in> set VARIABLE_POSITIONS \<and> f pos \<noteq> None then f pos
                                else (None :: string option))"
    have pairs: "restore_pairs (\<lambda>_. None) parts = (f', None)"
      unfolding parts_def f'_def using safe
      by (intro restore_saved_parts) (auto simp: f_def)
    have agree: "\<And>pos. pos \<in> set VARIABLE_POSITIONS \<Longrightarrow> f' pos = f pos"
      by (auto simp: f'_def)
    have "plain_filters f'"
      using plain by (auto simp: plain_filters_def f'_def f_def)
    note resolve = getFilteredIndices_init[OF this, of raw]
    have "restore_saved (init raw) w =
        Returns \<lparr>state = initial_state\<lparr>filters := f',
               filteredIndices := resolve_spec (sequences (init raw)) f' VARIABLE_POSITIONS\<rparr>,
             location_hash = ''#filters='' @ t\<rparr>"
      using t get[simplified]
      by (simp add: restore_saved_def hash loadHash_def split pairs resolve
          initial_state_def Let_def)
    moreover have "resolve_spec (sequences (init raw)) f' VARIABLE_POSITIONS
        = resolve_spec (sequences (init raw)) f VARIABLE_POSITIONS"
      using agree by (rule resolve_spec_cong)
    ultimately show ?thesis
      using agree by (simp add: f_def)
  qed
qed

lemma safe_canonical: "aa \<in> set AA_ORDER \<Longrightarrow> safe_value aa"
  by (auto simp: AA_ORDER_def safe_value_def unreserved_def)

lemma plain_canonical: "aa \<in> set AA_ORDER \<Longrightarrow> aa \<notin> set Object_prototype_names"
  by (auto simp: AA_ORDER_def Object_prototype_names_def)

end
